theory Spec2Isabelle
  imports Main
begin

section \<open>JavaScript strings\<close>

text \<open>
  Strings are lists of code units; the model covers the code units below 256.  The
  helpers below are the \<^verbatim>\<open>String.prototype\<close> methods and the regular-expression
  character classes that \<^verbatim>\<open>integration.js\<close> uses.
\<close>

definition code :: "char \<Rightarrow> nat" where
  "code c = of_char c"

text \<open>The class \<^verbatim>\<open>\w\<close> of a regular expression without the unicode flag.\<close>

definition isWordChar :: "char \<Rightarrow> bool" where
  "isWordChar c =
     ((97 \<le> code c \<and> code c \<le> 122) \<or> (65 \<le> code c \<and> code c \<le> 90) \<or>
      (48 \<le> code c \<and> code c \<le> 57) \<or> code c = 95)"

text \<open>
  The class \<^verbatim>\<open>\s\<close>, which is also what \<^verbatim>\<open>trim\<close>, \<^verbatim>\<open>parseInt\<close> and \<^verbatim>\<open>parseFloat\<close>
  strip: TAB, LF, VT, FF, CR, SP and NBSP.
\<close>

definition isWhiteSpace :: "char \<Rightarrow> bool" where
  "isWhiteSpace c = (code c \<in> {9, 10, 11, 12, 13, 32, 160})"

definition isDigit :: "char \<Rightarrow> bool" where
  "isDigit c = (48 \<le> code c \<and> code c \<le> 57)"

definition trim :: "string \<Rightarrow> string" where
  "trim s = rev (dropWhile isWhiteSpace (rev (dropWhile isWhiteSpace s)))"

definition toLowerChar :: "char \<Rightarrow> char" where
  "toLowerChar c =
     (if (65 \<le> code c \<and> code c \<le> 90) \<or> (192 \<le> code c \<and> code c \<le> 222 \<and> code c \<noteq> 215)
      then char_of (code c + 32) else c)"

definition toLowerCase :: "string \<Rightarrow> string" where
  "toLowerCase s = map toLowerChar s"

text \<open>\<^verbatim>\<open>s.split(sep)\<close> for a one-character separator: never empty, one piece more than separators.\<close>

fun split :: "char \<Rightarrow> string \<Rightarrow> string list" where
  "split sep [] = [[]]"
| "split sep (c # cs) =
     (if c = sep then [] # split sep cs
      else (case split sep cs of
              t # ts \<Rightarrow> (c # t) # ts
            | [] \<Rightarrow> [[c]]))"

text \<open>\<^verbatim>\<open>xs.join(sep)\<close>.\<close>

fun join :: "string \<Rightarrow> string list \<Rightarrow> string" where
  "join sep [] = []"
| "join sep [x] = x"
| "join sep (x # y # ys) = x @ sep @ join sep (y # ys)"

text \<open>\<^verbatim>\<open>s.includes(t)\<close> and \<^verbatim>\<open>s.startsWith(t)\<close>.\<close>

fun startsWith :: "string \<Rightarrow> string \<Rightarrow> bool" where
  "startsWith s [] = True"
| "startsWith [] (p # ps) = False"
| "startsWith (c # cs) (p # ps) = (c = p \<and> startsWith cs ps)"

fun includesStr :: "string \<Rightarrow> string \<Rightarrow> bool" where
  "includesStr [] t = (t = [])"
| "includesStr (c # cs) t = (startsWith (c # cs) t \<or> includesStr cs t)"

text \<open>\<^verbatim>\<open>String(n)\<close> and \<^verbatim>\<open>`${n}`\<close> for a non-negative integer \<open>n\<close>.\<close>

fun string_of_nat :: "nat \<Rightarrow> string" where
  "string_of_nat n =
     (if n < 10 then [char_of (48 + n)]
      else string_of_nat (n div 10) @ [char_of (48 + n mod 10)])"

declare string_of_nat.simps [simp del]

section \<open>Type hints of the query template\<close>

record type_hint =
  index :: nat
  type :: string

text \<open>
  \<^verbatim>\<open>query.replace(/\?(?::(\w+))?/g, callback)\<close>: the scan goes left to right; at a \<^verbatim>\<open>?\<close>
  the optional group takes a colon and the longest run of word characters after it,
  when that run is not empty.  The callback pushes one hint and puts a bare \<^verbatim>\<open>?\<close> in
  the place of the match; \<^verbatim>\<open>typeHint || 'string'\<close> is the tag, or \<^verbatim>\<open>string\<close> when the group
  did not take part.
\<close>

function replaceTypeHints :: "string \<Rightarrow> nat \<Rightarrow> string \<times> type_hint list" where
  "replaceTypeHints [] parameterIndex = ([], [])"
| "replaceTypeHints (c # cs) parameterIndex =
     (if c = CHR ''?'' then
        (case cs of
           d # ds \<Rightarrow>
             (if d = CHR '':'' \<and> takeWhile isWordChar ds \<noteq> [] then
                (let (q, hs) = replaceTypeHints (dropWhile isWordChar ds) (Suc parameterIndex)
                 in (CHR ''?'' # q,
                     \<lparr>index = parameterIndex, type = takeWhile isWordChar ds\<rparr> # hs))
              else
                (let (q, hs) = replaceTypeHints cs (Suc parameterIndex)
                 in (CHR ''?'' # q, \<lparr>index = parameterIndex, type = ''string''\<rparr> # hs)))
         | [] \<Rightarrow> ([CHR ''?''], [\<lparr>index = parameterIndex, type = ''string''\<rparr>]))
      else (let (q, hs) = replaceTypeHints cs parameterIndex in (c # q, hs)))"
  by pat_completeness auto
termination
  by (relation "measure (\<lambda>(s, i). length s)")
     (auto simp: less_Suc_eq_le intro: le_trans[OF length_dropWhile_le])

text \<open>\<^verbatim>\<open>parseTypeHints(query)\<close> returns \<^verbatim>\<open>{ query: modifiedQuery, typeHints }\<close>, here a pair.\<close>

definition parseTypeHints :: "string \<Rightarrow> string \<times> type_hint list" where
  "parseTypeHints q = replaceTypeHints q 0"

text \<open>
  A template is bare when no \<^verbatim>\<open>?\<close> in it is followed by a colon and a word character,
  that is, when the pattern finds no tag in it.
\<close>

fun bare :: "string \<Rightarrow> bool" where
  "bare [] = True"
| "bare (c # cs) =
     ((case cs of
         d # e # es \<Rightarrow> \<not> (c = CHR ''?'' \<and> d = CHR '':'' \<and> isWordChar e)
       | _ \<Rightarrow> True) \<and> bare cs)"

text \<open>
  The placeholders of a template, in source order: for each \<^verbatim>\<open>?\<close> the text that follows
  it.  A placeholder has a tag when that text starts with a colon and a word character;
  the tag is the run of word characters after the colon.
\<close>

fun placeholders :: "string \<Rightarrow> string list" where
  "placeholders [] = []"
| "placeholders (c # cs) = (if c = CHR ''?'' then cs # placeholders cs else placeholders cs)"

definition hasTag :: "string \<Rightarrow> bool" where
  "hasTag rest =
     (case rest of d # ds \<Rightarrow> d = CHR '':'' \<and> takeWhile isWordChar ds \<noteq> [] | [] \<Rightarrow> False)"

definition tagAfter :: "string \<Rightarrow> string" where
  "tagAfter rest = (if hasTag rest then takeWhile isWordChar (tl rest) else ''string'')"

text \<open>
  The canonical template in the words of the specification: the template in which every
  placeholder is reduced to a bare \<^verbatim>\<open>?\<close>.  The characters \<^verbatim>\<open>?\<close> cut the template into pieces;
  every piece but the first is the text that follows a placeholder, up to the next one, and
  it loses the tag with which it starts, when it starts with one.
\<close>

definition withoutTag :: "string \<Rightarrow> string" where
  "withoutTag rest = (if hasTag rest then dropWhile isWordChar (tl rest) else rest)"

definition canonicalTemplate :: "string \<Rightarrow> string" where
  "canonicalTemplate q =
     (case split CHR ''?'' q of
        [] \<Rightarrow> []
      | first # pieces \<Rightarrow> first @ concat (map (\<lambda>piece. CHR ''?'' # withoutTag piece) pieces))"

text \<open>
  The tag of a placeholder is itself followed by a colon and a word character, as the tag
  \<^verbatim>\<open>a\<close> in \<^verbatim>\<open>?:a:b\<close>.
\<close>

definition tagThenTag :: "string \<Rightarrow> bool" where
  "tagThenTag rest = (hasTag rest \<and> hasTag (withoutTag rest))"

section \<open>Errors\<close>

text \<open>
  A thrown value: the \<^verbatim>\<open>name\<close> and \<^verbatim>\<open>message\<close> of an \<^verbatim>\<open>Error\<close>, and the \<^verbatim>\<open>$metadata\<close>
  (request id, HTTP status code) that the errors of the AWS SDK carry.  The stack trace is
  text of the runtime and is left out.
\<close>

record sdk_metadata =
  requestId :: "string option"
  httpStatusCode :: "nat option"

record js_error =
  name :: string
  message :: string
  metadata :: "sdk_metadata option"

definition Error :: "string \<Rightarrow> js_error" where
  "Error msg = \<lparr>name = ''Error'', message = msg, metadata = None\<rparr>"

definition TypeError :: "string \<Rightarrow> js_error" where
  "TypeError msg = \<lparr>name = ''TypeError'', message = msg, metadata = None\<rparr>"

definition apostrophe :: char where
  "apostrophe = CHR 0x27"

definition backslash :: char where
  "backslash = CHR 0x5C"

definition dquote :: char where
  "dquote = CHR 0x22"

text \<open>What reading \<^verbatim>\<open>.attribute\<close> of \<^verbatim>\<open>undefined\<close> throws.\<close>

definition undefinedAttribute :: js_error where
  "undefinedAttribute =
     TypeError (''Cannot read properties of undefined (reading '' @ [apostrophe] @ ''attribute'' @
                [apostrophe] @ '')'')"

section \<open>Binding an entity value to a typed placeholder\<close>

text \<open>
  \<^verbatim>\<open>escapeEntityValue\<close>: the three \<^verbatim>\<open>replace\<close> calls in their order.  The first pattern,
  \<^verbatim>\<open>/(\r\n|\n|\r)/gm\<close>, matches every CR and every LF, so it deletes them all.
\<close>

definition escapeEntityValue :: "string \<Rightarrow> string" where
  "escapeEntityValue entityValue =
     concat (map (\<lambda>c. if c = apostrophe then [backslash, apostrophe] else [c])
       (concat (map (\<lambda>c. if c = backslash then [backslash, backslash] else [c])
         (filter (\<lambda>c. code c \<noteq> 13 \<and> code c \<noteq> 10) entityValue))))"

definition digitsValue :: "string \<Rightarrow> nat" where
  "digitsValue ds = foldl (\<lambda>acc c. 10 * acc + (code c - 48)) 0 ds"

text \<open>
  \<^verbatim>\<open>parseInt(s, 10)\<close>: leading white space is skipped, one sign is read, and the longest
  run of decimal digits that follows is the number; \<open>None\<close> is \<^verbatim>\<open>NaN\<close>, when that run is
  empty.  Whatever follows the digits is ignored.  The value is the mathematical one.
\<close>

definition parseInt :: "string \<Rightarrow> int option" where
  "parseInt s =
     (let t = dropWhile isWhiteSpace s;
          negative = (t \<noteq> [] \<and> hd t = CHR ''-'');
          u = (if t \<noteq> [] \<and> (hd t = CHR ''-'' \<or> hd t = CHR ''+'') then tl t else t);
          ds = takeWhile isDigit u
      in if ds = [] then None
         else Some (if negative then - int (digitsValue ds) else int (digitsValue ds)))"

text \<open>
  \<^verbatim>\<open>isNaN(parseFloat(s))\<close>: after the white space and one sign, the text starts neither
  with \<^verbatim>\<open>Infinity\<close>, nor with a digit, nor with a dot and a digit.
\<close>

definition parseFloatIsNaN :: "string \<Rightarrow> bool" where
  "parseFloatIsNaN s =
     (let t = dropWhile isWhiteSpace s;
          u = (if t \<noteq> [] \<and> (hd t = CHR ''-'' \<or> hd t = CHR ''+'') then tl t else t)
      in \<not> (startsWith u ''Infinity'' \<or>
             (case u of
                c # cs \<Rightarrow> isDigit c \<or> (c = CHR ''.'' \<and> cs \<noteq> [] \<and> isDigit (hd cs))
              | [] \<Rightarrow> False)))"

text \<open>
  The numbers of the runtime are IEEE-754 doubles.  An integer up to \<open>2 ^ 53\<close> in
  magnitude is a double, and \<^verbatim>\<open>String\<close> prints its decimal digits.  What \<^verbatim>\<open>String\<close> prints
  for a larger integer, and for the result of \<^verbatim>\<open>parseFloat\<close>, depends on the rounding of
  doubles; the model takes both as parameters, and with them \<^verbatim>\<open>(n / 1024 / 1024).toFixed(2)\<close>.
\<close>

record js_numbers =
  stringOfLargeInt :: "int \<Rightarrow> string"
  stringOfParseFloat :: "string \<Rightarrow> string"
  megabytes :: "nat \<Rightarrow> string"

definition stringOfInt :: "js_numbers \<Rightarrow> int \<Rightarrow> string" where
  "stringOfInt rt i =
     (if \<bar>i\<bar> \<le> 2 ^ 53 then
        (if i < 0 then CHR ''-'' # string_of_nat (nat (- i)) else string_of_nat (nat i))
      else stringOfLargeInt rt i)"

text \<open>
  \<^verbatim>\<open>createParameterValue(entityValue, type)\<close>: the \<^verbatim>\<open>switch\<close> on the lower-cased type, with
  its fall-through labels, and \<^verbatim>\<open>default\<close> taking every other tag to the string case.
\<close>

definition createParameterValue :: "js_numbers \<Rightarrow> string \<Rightarrow> string \<Rightarrow> js_error + string" where
  "createParameterValue rt entityValue ty =
     (let escapedValue = escapeEntityValue entityValue;
          t = toLowerCase ty
      in if t = ''integer'' \<or> t = ''int'' \<or> t = ''bigint'' then
           (case parseInt entityValue of
              None \<Rightarrow>
                Inl (Error (''Cannot convert '' @ [dquote] @ entityValue @ [dquote] @
                            '' to integer type''))
            | Some intValue \<Rightarrow> Inr (stringOfInt rt intValue))
         else if t = ''decimal'' \<or> t = ''double'' \<or> t = ''float'' \<or> t = ''real'' then
           (if parseFloatIsNaN entityValue then
              Inl (Error (''Cannot convert '' @ [dquote] @ entityValue @ [dquote] @
                          '' to numeric type''))
            else Inr (stringOfParseFloat rt entityValue))
         else if t = ''boolean'' \<or> t = ''bool'' then
           (let lowerValue = toLowerCase entityValue
            in if lowerValue = ''true'' \<or> lowerValue = ''1'' then Inr ''true''
               else if lowerValue = ''false'' \<or> lowerValue = ''0'' then Inr ''false''
               else Inl (Error (''Cannot convert '' @ [dquote] @ entityValue @ [dquote] @
                                '' to boolean type'')))
         else Inr ([apostrophe] @ escapedValue @ [apostrophe]))"

text \<open>
  The text starts with an integer: after white space and at most one sign comes a decimal
  digit.  An integer literal is a non-empty run of decimal digits, with or without a minus
  sign in front.
\<close>

definition startsWithInteger :: "string \<Rightarrow> bool" where
  "startsWithInteger s =
     (let t = dropWhile isWhiteSpace s;
          u = (if t \<noteq> [] \<and> (hd t = CHR ''-'' \<or> hd t = CHR ''+'') then tl t else t)
      in u \<noteq> [] \<and> isDigit (hd u))"

definition isIntegerLiteral :: "string \<Rightarrow> bool" where
  "isIntegerLiteral l =
     (case l of
        [] \<Rightarrow> False
      | c # cs \<Rightarrow> if c = CHR ''-'' then cs \<noteq> [] \<and> list_all isDigit cs
                  else list_all isDigit (c # cs))"

section \<open>Attribute specifications\<close>

record attribute_spec =
  label :: string
  attribute :: string
  parser :: "string option"

text \<open>
  The callback of \<^verbatim>\<open>map\<close> in \<^verbatim>\<open>processAttributeOption\<close>.  With four tokens or more no
  branch of the \<^verbatim>\<open>if\<close> chain returns, and the entry is \<^verbatim>\<open>undefined\<close>, here \<open>None\<close>.
\<close>

definition processColumn :: "string \<Rightarrow> attribute_spec option" where
  "processColumn column =
     (let tokens = split CHR '':'' column
      in if length tokens = 1 then
           Some \<lparr>label = trim (tokens ! 0), attribute = trim (tokens ! 0), parser = None\<rparr>
         else if length tokens = 2 then
           Some \<lparr>label = trim (tokens ! 0), attribute = trim (tokens ! 1), parser = None\<rparr>
         else if length tokens = 3 then
           Some \<lparr>label = trim (tokens ! 0), attribute = trim (tokens ! 2),
                 parser = Some (toLowerCase (trim (tokens ! 1)))\<rparr>
         else None)"

definition processAttributeOption :: "string \<Rightarrow> attribute_spec option list" where
  "processAttributeOption attributeOption = map processColumn (split CHR '','' attributeOption)"

text \<open>
  The date library (luxon) is outside the repository.  Each of its six parsers, followed by
  \<^verbatim>\<open>isValid\<close> and \<^verbatim>\<open>toLocaleString(DateTime.DATETIME_SHORT)\<close>, is a parameter: it yields the
  formatted text of a valid date, an invalid date, or it throws.  The two epoch parsers
  stand for \<^verbatim>\<open>DateTime.fromSeconds(+attribute)\<close> and \<^verbatim>\<open>DateTime.fromMillis(+attribute)\<close>.
\<close>

datatype date_time = Valid string | Invalid | Throws js_error

record luxon =
  fromISO :: "string \<Rightarrow> date_time"
  fromHTTP :: "string \<Rightarrow> date_time"
  fromRFC2822 :: "string \<Rightarrow> date_time"
  fromSQL :: "string \<Rightarrow> date_time"
  fromSeconds :: "string \<Rightarrow> date_time"
  fromMillis :: "string \<Rightarrow> date_time"

text \<open>\<^verbatim>\<open>d.isValid ? d.toLocaleString(DateTime.DATETIME_SHORT) : attribute\<close>.\<close>

definition formatted :: "date_time \<Rightarrow> string \<Rightarrow> js_error + string" where
  "formatted d attr =
     (case d of Valid s \<Rightarrow> Inr s | Invalid \<Rightarrow> Inr attr | Throws e \<Rightarrow> Inl e)"

text \<open>The body of the \<^verbatim>\<open>try\<close> block of \<^verbatim>\<open>parseAttribute\<close>; \<open>None\<close> is a \<^verbatim>\<open>null\<close> parser.\<close>

definition parseAttributeSwitch :: "luxon \<Rightarrow> string \<Rightarrow> string option \<Rightarrow> js_error + string" where
  "parseAttributeSwitch lx attr prs =
     (case prs of
        None \<Rightarrow> Inr attr
      | Some p \<Rightarrow>
          if p = ''date-iso'' then formatted (fromISO lx attr) attr
          else if p = ''date-http'' then formatted (fromHTTP lx attr) attr
          else if p = ''date-rfc2822'' then formatted (fromRFC2822 lx attr) attr
          else if p = ''date-sql'' then formatted (fromSQL lx attr) attr
          else if p = ''date-seconds'' then formatted (fromSeconds lx attr) attr
          else if p = ''date-millis'' then formatted (fromMillis lx attr) attr
          else Inr attr)"

text \<open>
  \<^verbatim>\<open>parseAttribute(attribute, parser)\<close>: the empty string for \<^verbatim>\<open>null\<close> or \<^verbatim>\<open>undefined\<close>;
  otherwise the \<^verbatim>\<open>try\<close> block, whose \<^verbatim>\<open>catch\<close> returns the attribute.
\<close>

definition parseAttribute :: "luxon \<Rightarrow> string option \<Rightarrow> string option \<Rightarrow> string" where
  "parseAttribute lx attr prs =
     (case attr of
        None \<Rightarrow> []
      | Some a \<Rightarrow>
          (case parseAttributeSwitch lx a prs of
             Inr s \<Rightarrow> s
           | Inl error \<Rightarrow> a))"

text \<open>The parser of the date library that a parser tag selects, if any.\<close>

definition dateParser :: "luxon \<Rightarrow> string \<Rightarrow> (string \<Rightarrow> date_time) option" where
  "dateParser lx p =
     (if p = ''date-iso'' then Some (fromISO lx)
      else if p = ''date-http'' then Some (fromHTTP lx)
      else if p = ''date-rfc2822'' then Some (fromRFC2822 lx)
      else if p = ''date-sql'' then Some (fromSQL lx)
      else if p = ''date-seconds'' then Some (fromSeconds lx)
      else if p = ''date-millis'' then Some (fromMillis lx)
      else None)"

section \<open>Options and the state of the module\<close>

text \<open>
  The options of the user, as the functions read them: \<^verbatim>\<open>region\<close> is \<^verbatim>\<open>options.region.value\<close>,
  \<open>None\<close> is a property that is absent, and \<open>typeHints\<close> is the property \<^verbatim>\<open>_typeHints\<close> that
  \<^verbatim>\<open>ensurePreparedStatement\<close> writes into the options.
\<close>

record options =
  region :: string
  endpoint :: "string option"
  accessKeyId :: string
  secretAccessKey :: string
  workGroup :: "string option"
  outputLocation :: "string option"
  query :: string
  limit :: nat
  summaryAttributes :: "string option"
  maxSummaryDocuments :: nat
  detailAttributes :: "string option"
  documentTitleAttribute :: "string option"
  typeHints :: "type_hint list option"

record client_options =
  clientRegion :: string
  credentials :: "(string \<times> string) option"

text \<open>
  The variables of the module.  \<open>None\<close> is \<^verbatim>\<open>null\<close>; for the three \<^verbatim>\<open>last...Option\<close>
  variables \<open>Some v\<close> is the option value \<open>v\<close> stored by the last call.
\<close>

record integration_state =
  originalOptions :: "options option"
  athenaClient :: "client_options option"
  currentPreparedStatement :: "string option"
  currentQuery :: "string option"
  cachedDocumentTitleAttributes :: "attribute_spec option list option"
  cachedDetailAttributes :: "attribute_spec option list option"
  cachedSummaryAttributes :: "attribute_spec option list option"
  lastDocumentTitleAttributeOption :: "string option option"
  lastDetailAttributesOption :: "string option option"
  lastSummaryAttributesOption :: "string option option"

definition initial_state :: integration_state where
  "initial_state =
     \<lparr>originalOptions = None, athenaClient = None, currentPreparedStatement = None,
      currentQuery = None, cachedDocumentTitleAttributes = None, cachedDetailAttributes = None,
      cachedSummaryAttributes = None, lastDocumentTitleAttributeOption = None,
      lastDetailAttributesOption = None, lastSummaryAttributesOption = None\<rparr>"

text \<open>
  One of the three blocks of \<^verbatim>\<open>setCachedDisplayAttributes\<close>: the attributes of an option
  that is a string with something but white space in it, \<^verbatim>\<open>null\<close> otherwise.
\<close>

definition cachedAttributes :: "string option \<Rightarrow> attribute_spec option list option" where
  "cachedAttributes opt =
     (case opt of
        Some s \<Rightarrow> if length (trim s) > 0 then Some (processAttributeOption s) else None
      | None \<Rightarrow> None)"

definition setCachedDisplayAttributes :: "options \<Rightarrow> integration_state \<Rightarrow> integration_state" where
  "setCachedDisplayAttributes opts st =
     (let st1 = (if lastDocumentTitleAttributeOption st \<noteq> Some (documentTitleAttribute opts) then
                   st\<lparr>cachedDocumentTitleAttributes := cachedAttributes (documentTitleAttribute opts),
                      lastDocumentTitleAttributeOption := Some (documentTitleAttribute opts)\<rparr>
                 else st);
          st2 = (if lastDetailAttributesOption st1 \<noteq> Some (detailAttributes opts) then
                   st1\<lparr>cachedDetailAttributes := cachedAttributes (detailAttributes opts),
                       lastDetailAttributesOption := Some (detailAttributes opts)\<rparr>
                 else st1)
      in if lastSummaryAttributesOption st2 \<noteq> Some (summaryAttributes opts) then
           st2\<lparr>cachedSummaryAttributes := cachedAttributes (summaryAttributes opts),
               lastSummaryAttributesOption := Some (summaryAttributes opts)\<rparr>
         else st2)"

section \<open>Rows, summary tags and detail documents\<close>

text \<open>
  A row object: its columns in the order in which the object lists them, each with the \<^verbatim>\<open>VarCharValue\<close> of the cell
  (\<open>None\<close> when the cell has none).  \<^verbatim>\<open>get(result, path)\<close> of lodash is the lookup of the
  column; that is what lodash does when the path is a column of the row or has no dot
  and no bracket in it.  Paths that descend into a value, and the properties a row
  inherits from \<^verbatim>\<open>Object.prototype\<close>, are not modelled.
\<close>

type_synonym row = "(string \<times> string option) list"

definition get :: "row \<Rightarrow> string \<Rightarrow> string option" where
  "get result path = (case map_of result path of Some v \<Rightarrow> v | None \<Rightarrow> None)"

text \<open>
  \<^verbatim>\<open>obj[k] = v\<close>: an existing column keeps its place.  A new column whose name is an array
  index (the decimal digits, without a leading zero, of a number below \<open>2 ^ 32 - 1\<close>) takes
  its place among the columns of that kind, which an object lists first and in ascending
  order; any other new column goes last.  Two such names are compared by their lengths,
  and digit by digit when they are equally long.
\<close>

fun digitsLess :: "string \<Rightarrow> string \<Rightarrow> bool" where
  "digitsLess (x # xs) (y # ys) = (code x < code y \<or> (code x = code y \<and> digitsLess xs ys))"
| "digitsLess xs ys = False"

definition indexLess :: "string \<Rightarrow> string \<Rightarrow> bool" where
  "indexLess a b = (length a < length b \<or> (length a = length b \<and> digitsLess a b))"

definition isArrayIndex :: "string \<Rightarrow> bool" where
  "isArrayIndex k =
     (k \<noteq> [] \<and> list_all isDigit k \<and> (hd k \<noteq> CHR ''0'' \<or> length k = 1) \<and>
      indexLess k ''4294967295'')"

fun insertIndex :: "string \<Rightarrow> string option \<Rightarrow> row \<Rightarrow> row" where
  "insertIndex k v [] = [(k, v)]"
| "insertIndex k v (p # ps) =
     (if isArrayIndex (fst p) \<and> indexLess (fst p) k then p # insertIndex k v ps
      else (k, v) # p # ps)"

definition setProperty :: "string \<Rightarrow> string option \<Rightarrow> row \<Rightarrow> row" where
  "setProperty k v obj =
     (if k \<in> set (map fst obj) then map (\<lambda>p. if fst p = k then (k, v) else p) obj
      else if isArrayIndex k then insertIndex k v obj
      else obj @ [(k, v)])"

text \<open>
  A \<^verbatim>\<open>forEach\<close> whose callback pushes to one array and may throw: the pushes of the
  elements in order, or the first error.
\<close>

fun collect :: "('a \<Rightarrow> js_error + 'b list) \<Rightarrow> 'a list \<Rightarrow> js_error + 'b list" where
  "collect f [] = Inr []"
| "collect f (x # xs) =
     (case f x of
        Inl e \<Rightarrow> Inl e
      | Inr ys \<Rightarrow> (case collect f xs of Inl e \<Rightarrow> Inl e | Inr zs \<Rightarrow> Inr (ys @ zs)))"

text \<open>\<^verbatim>\<open>[...new Set(tags)]\<close>: the first occurrence of each tag, in order.\<close>

definition dedupe :: "string list \<Rightarrow> string list" where
  "dedupe tags = rev (remdups (rev tags))"

definition countTag :: "row list \<Rightarrow> string" where
  "countTag rs =
     string_of_nat (length rs) @ '' '' @ (if length rs = 1 then ''result'' else ''results'')"

text \<open>The body of the \<^verbatim>\<open>for\<close> loop of \<^verbatim>\<open>getSummaryTags\<close>, for one attribute and one row.\<close>

definition summaryTag :: "luxon \<Rightarrow> attribute_spec option \<Rightarrow> row \<Rightarrow> js_error + string list" where
  "summaryTag lx attributeObj result =
     (case attributeObj of
        None \<Rightarrow> Inl undefinedAttribute
      | Some a \<Rightarrow>
          (case get result (attribute a) of
             None \<Rightarrow> Inr []
           | Some tag \<Rightarrow>
               if tag = [] then Inr []
               else if label a \<noteq> [] then
                 Inr [label a @ '': '' @ parseAttribute lx (Some tag) (parser a)]
               else Inr [parseAttribute lx (Some tag) (parser a)]))"

text \<open>
  \<^verbatim>\<open>getSummaryTags(results, options)\<close> of the current version: it reads the cached
  attributes and removes duplicate tags at the end.
\<close>

definition getSummaryTags ::
  "luxon \<Rightarrow> integration_state \<Rightarrow> row list \<Rightarrow> options \<Rightarrow> js_error + string list" where
  "getSummaryTags lx st rs opts =
     (case cachedSummaryAttributes st of
        None \<Rightarrow> Inr [countTag rs]
      | Some summaryAttrs \<Rightarrow>
          if length summaryAttrs = 0 then Inr [countTag rs]
          else
            (case collect (\<lambda>attributeObj.
                     collect (summaryTag lx attributeObj) (take (maxSummaryDocuments opts) rs))
                   summaryAttrs of
               Inl e \<Rightarrow> Inl e
             | Inr tags \<Rightarrow>
                 Inr (dedupe
                   (if length tags = 0 \<or> length rs > maxSummaryDocuments opts
                    then tags @ [countTag rs] else tags))))"

text \<open>
  \<^verbatim>\<open>getSummaryTags\<close> of the first version (\<^verbatim>\<open>integration.js\<close>): it processes the option on
  every call and returns the tags as pushed.
\<close>

definition getSummaryTags_v1 :: "luxon \<Rightarrow> row list \<Rightarrow> options \<Rightarrow> js_error + string list" where
  "getSummaryTags_v1 lx rs opts =
     (case cachedAttributes (summaryAttributes opts) of
        None \<Rightarrow> Inr [countTag rs]
      | Some summaryAttrs \<Rightarrow>
          (case collect (\<lambda>attributeObj.
                   collect (summaryTag lx attributeObj) (take (maxSummaryDocuments opts) rs))
                 summaryAttrs of
             Inl e \<Rightarrow> Inl e
           | Inr tags \<Rightarrow>
               Inr (if length tags = 0 \<or> length rs > maxSummaryDocuments opts
                    then tags @ [countTag rs] else tags)))"

text \<open>\<^verbatim>\<open>getDocumentTitle(result)\<close>; \<open>None\<close> is \<^verbatim>\<open>null\<close>.\<close>

definition getDocumentTitle ::
  "luxon \<Rightarrow> integration_state \<Rightarrow> row \<Rightarrow> js_error + string option" where
  "getDocumentTitle lx st result =
     (case cachedDocumentTitleAttributes st of
        None \<Rightarrow> Inr None
      | Some titleAttrs \<Rightarrow>
          (case titleAttrs of
             [] \<Rightarrow> Inr None
           | attributeObj # rest \<Rightarrow>
               (case attributeObj of
                  None \<Rightarrow> Inl undefinedAttribute
                | Some a \<Rightarrow>
                    (let parsedValue = parseAttribute lx (get result (attribute a)) (parser a)
                     in if label a \<noteq> [] then Inr (Some (label a @ '': '' @ parsedValue))
                        else Inr (Some parsedValue)))))"

text \<open>
  Statistics of an execution, as the integration reports them.  The running times, which
  are differences of time stamps and of the clock, are left out; \<open>elapsedSeconds\<close> comes
  with the status response (see below).
\<close>

record execution_stats =
  status :: "string option"
  elapsedSeconds :: "string option"
  dataScannedBytes :: "nat option"

text \<open>A detail document: \<^verbatim>\<open>{ title, attributes, resultAsString }\<close>, each attribute a pair of
  \<^verbatim>\<open>key\<close> and text.\<close>

record detail_document =
  title :: "string option"
  attributes :: "(string \<times> string) list"
  resultAsString :: "string option"

datatype detail_results = Rows "row list" | Documents "detail_document list"

record details =
  showAsJson :: bool
  results :: detail_results
  complete :: bool
  queryExecutionId :: "string option"
  executionStats :: "execution_stats option"

text \<open>The inner \<^verbatim>\<open>forEach\<close> of \<^verbatim>\<open>getDetails\<close>: what one attribute pushes to the document.\<close>

definition detailAttribute ::
  "luxon \<Rightarrow> row \<Rightarrow> attribute_spec option \<Rightarrow> js_error + (string \<times> string) list" where
  "detailAttribute lx result attributeObj =
     (case attributeObj of
        None \<Rightarrow> Inl undefinedAttribute
      | Some a \<Rightarrow>
          (case get result (attribute a) of
             None \<Rightarrow> Inr []
           | Some attributeValue \<Rightarrow>
               if attributeValue = [] then Inr []
               else Inr [(label a, parseAttribute lx (Some attributeValue) (parser a))]))"

text \<open>The outer \<^verbatim>\<open>forEach\<close>: the document of one row, pushed when it is not empty.\<close>

definition detailDocument ::
  "luxon \<Rightarrow> integration_state \<Rightarrow> attribute_spec option list \<Rightarrow> row
     \<Rightarrow> js_error + detail_document list" where
  "detailDocument lx st detailAttrs result =
     (case collect (detailAttribute lx result) detailAttrs of
        Inl e \<Rightarrow> Inl e
      | Inr document \<Rightarrow>
          if length document > 0 then
            (case getDocumentTitle lx st result of
               Inl e \<Rightarrow> Inl e
             | Inr t \<Rightarrow>
                 Inr [\<lparr>title = t, attributes = document,
                       resultAsString =
                         Some (join '' '' (map (\<lambda>attr. toLowerCase (snd attr)) document))\<rparr>])
          else Inr [])"

definition getDetails ::
  "luxon \<Rightarrow> integration_state \<Rightarrow> row list \<Rightarrow> bool \<Rightarrow> string option
     \<Rightarrow> execution_stats option \<Rightarrow> js_error + details" where
  "getDetails lx st rs cmpl qid stats =
     (case cachedDetailAttributes st of
        None \<Rightarrow>
          Inr \<lparr>showAsJson = True, results = Rows rs, complete = cmpl, queryExecutionId = qid,
               executionStats = stats\<rparr>
      | Some detailAttrs \<Rightarrow>
          if length detailAttrs = 0 then
            Inr \<lparr>showAsJson = True, results = Rows rs, complete = cmpl, queryExecutionId = qid,
                 executionStats = stats\<rparr>
          else
            (case collect (detailDocument lx st detailAttrs) rs of
               Inl e \<Rightarrow> Inl e
             | Inr ds \<Rightarrow>
                 Inr \<lparr>showAsJson = False, results = Documents ds, complete = cmpl,
                      queryExecutionId = qid, executionStats = stats\<rparr>))"

section \<open>The Athena client\<close>

record query_params =
  QueryString :: string
  WorkGroup :: string
  OutputLocation :: "string option"

text \<open>
  \<^verbatim>\<open>statusResult.QueryExecution\<close>: the \<^verbatim>\<open>State\<close> and \<^verbatim>\<open>StateChangeReason\<close> of its \<^verbatim>\<open>Status\<close>,
  \<^verbatim>\<open>DataScannedInBytes\<close> of its \<^verbatim>\<open>Statistics\<close>, and \<open>Elapsed\<close>, the text that
  \<^verbatim>\<open>calculateElapsedTime(SubmissionDateTime)\<close> computes from the clock when the response
  arrives.
\<close>

record query_execution =
  State :: string
  StateChangeReason :: "string option"
  DataScannedInBytes :: "nat option"
  Elapsed :: "string option"

text \<open>\<^verbatim>\<open>ResultSet.Rows\<close>: for each row the \<^verbatim>\<open>VarCharValue\<close> of its cells; \<open>None\<close> when absent.\<close>

type_synonym result_rows = "string option list list option"

datatype command =
    StartQueryExecution query_params
  | GetQueryExecution string
  | GetQueryResults string nat
  | GetPreparedStatement string string
  | UpdatePreparedStatement string string string
  | CreatePreparedStatement string string string

datatype reply =
    Failure js_error
  | QueryExecutionId string
  | QueryExecution query_execution
  | ResultSet result_rows
  | Done

text \<open>
  What the integration does to the outside: it waits, and it sends commands.  The trace
  keeps each with the reply that came back.
\<close>

datatype event = Slept nat | Sent command reply

text \<open>
  The remote service is a parameter: a state \<open>'r\<close> of any type and, for each command that
  \<^verbatim>\<open>athenaClient.send\<close> is given, a function of that state that answers, or rejects with
  an error, and gives the next state.
\<close>

record 'r athena =
  startQueryExecution :: "query_params \<Rightarrow> 'r \<Rightarrow> (js_error + string) \<times> 'r"
  getQueryExecution :: "string \<Rightarrow> 'r \<Rightarrow> (js_error + query_execution) \<times> 'r"
  getQueryResults :: "string \<Rightarrow> nat \<Rightarrow> 'r \<Rightarrow> (js_error + result_rows) \<times> 'r"
  getPreparedStatement :: "string \<Rightarrow> string \<Rightarrow> 'r \<Rightarrow> (js_error + unit) \<times> 'r"
  updatePreparedStatement :: "string \<Rightarrow> string \<Rightarrow> string \<Rightarrow> 'r \<Rightarrow> (js_error + unit) \<times> 'r"
  createPreparedStatement :: "string \<Rightarrow> string \<Rightarrow> string \<Rightarrow> 'r \<Rightarrow> (js_error + unit) \<times> 'r"

record 'r world =
  remote :: 'r
  trace :: "event list"

definition send ::
  "('r \<Rightarrow> (js_error + 'a) \<times> 'r) \<Rightarrow> command \<Rightarrow> ('a \<Rightarrow> reply) \<Rightarrow> 'r world
     \<Rightarrow> (js_error + 'a) \<times> 'r world" where
  "send call cmd wrap w =
     (case call (remote w) of
        (res, r) \<Rightarrow>
          (res, \<lparr>remote = r,
                 trace = trace w @ [Sent cmd (case res of Inl e \<Rightarrow> Failure e | Inr a \<Rightarrow> wrap a)]\<rparr>))"

text \<open>\<^verbatim>\<open>await new Promise((resolve) => setTimeout(resolve, ms))\<close>.\<close>

definition sleep :: "nat \<Rightarrow> 'r world \<Rightarrow> 'r world" where
  "sleep ms w = w\<lparr>trace := trace w @ [Slept ms]\<rparr>"

section \<open>The prepared statement\<close>

text \<open>\<^verbatim>\<open>s.replace(/\s+/g, '_')\<close>.\<close>

function replaceWhiteSpace :: "string \<Rightarrow> string" where
  "replaceWhiteSpace [] = []"
| "replaceWhiteSpace (c # cs) =
     (if isWhiteSpace c then CHR ''_'' # replaceWhiteSpace (dropWhile isWhiteSpace cs)
      else c # replaceWhiteSpace cs)"
  by pat_completeness auto
termination
  by (relation "measure length")
     (auto simp: less_Suc_eq_le intro: length_dropWhile_le)

text \<open>The name of the statement; \<open>directory\<close> is \<^verbatim>\<open>path.basename(__dirname)\<close>.\<close>

definition statementNameOf :: "string \<Rightarrow> string" where
  "statementNameOf directory = ''polarity_prepared_statement_'' @ replaceWhiteSpace directory"

text \<open>\<^verbatim>\<open>options.workGroup || 'primary'\<close>.\<close>

definition workGroupOf :: "options \<Rightarrow> string" where
  "workGroupOf opts =
     (case workGroup opts of None \<Rightarrow> ''primary'' | Some g \<Rightarrow> if g = [] then ''primary'' else g)"

text \<open>
  The body of the \<^verbatim>\<open>if\<close> of \<^verbatim>\<open>ensurePreparedStatement\<close>: the existence check, whose
  rejection (of any kind) means that the statement does not exist; then the update or the
  creation, whose rejection is thrown before the cache is written.
\<close>

definition refreshPreparedStatement ::
  "'r athena \<Rightarrow> string \<Rightarrow> string \<Rightarrow> string \<Rightarrow> integration_state \<Rightarrow> 'r world
     \<Rightarrow> (js_error + string) \<times> integration_state \<times> 'r world" where
  "refreshPreparedStatement client statementName processedQuery wg st w =
     (case send (getPreparedStatement client statementName wg)
             (GetPreparedStatement statementName wg) (\<lambda>u. Done) w of
        (got, w1) \<Rightarrow>
          (let statementExists = (case got of Inr u \<Rightarrow> True | Inl error \<Rightarrow> False)
           in case (if statementExists then
                      send (updatePreparedStatement client statementName processedQuery wg)
                        (UpdatePreparedStatement statementName processedQuery wg) (\<lambda>u. Done) w1
                    else
                      send (createPreparedStatement client statementName processedQuery wg)
                        (CreatePreparedStatement statementName processedQuery wg) (\<lambda>u. Done) w1) of
                (Inl e, w2) \<Rightarrow> (Inl e, st, w2)
              | (Inr u, w2) \<Rightarrow>
                  (Inr statementName,
                   st\<lparr>currentPreparedStatement := Some statementName,
                      currentQuery := Some processedQuery\<rparr>,
                   w2)))"

definition ensurePreparedStatement ::
  "'r athena \<Rightarrow> string \<Rightarrow> string \<Rightarrow> options \<Rightarrow> integration_state \<Rightarrow> 'r world
     \<Rightarrow> (js_error + string) \<times> options \<times> integration_state \<times> 'r world" where
  "ensurePreparedStatement client directory q opts st w =
     (let statementName = statementNameOf directory;
          processedQuery = fst (parseTypeHints q);
          opts1 = opts\<lparr>typeHints := Some (snd (parseTypeHints q))\<rparr>
      in case currentPreparedStatement st of
           None \<Rightarrow>
             (case refreshPreparedStatement client statementName processedQuery
                     (workGroupOf opts) st w of
                (res, st1, w1) \<Rightarrow> (res, opts1, st1, w1))
         | Some cached \<Rightarrow>
             if currentQuery st \<noteq> Some processedQuery then
               (case refreshPreparedStatement client statementName processedQuery
                       (workGroupOf opts) st w of
                  (res, st1, w1) \<Rightarrow> (res, opts1, st1, w1))
             else (Inr cached, opts1, st, w))"

text \<open>
  Calls that overlap.  A call of \<^verbatim>\<open>ensurePreparedStatement\<close> gives up control at its two
  \<^verbatim>\<open>await\<close>s and runs alone between them, so it advances in steps: from the call to the
  first \<^verbatim>\<open>await\<close> (or to the \<^verbatim>\<open>return\<close>, on a cache hit), from the reply to the existence
  check to the second \<^verbatim>\<open>await\<close>, and from the reply to the update or the creation to the
  end.  The exchange with the service is recorded at the step that takes the reply.
\<close>

datatype ensure_stage =
    Called string
  | AwaitingCheck string
  | AwaitingWrite string bool
  | Returned "js_error + string"

definition ensureStep ::
  "'r athena \<Rightarrow> string \<Rightarrow> ensure_stage \<Rightarrow> options \<Rightarrow> integration_state \<Rightarrow> 'r world
     \<Rightarrow> ensure_stage \<times> options \<times> integration_state \<times> 'r world" where
  "ensureStep client directory stage opts st w =
     (let statementName = statementNameOf directory
      in case stage of
           Called q \<Rightarrow>
             (let processedQuery = fst (parseTypeHints q);
                  opts1 = opts\<lparr>typeHints := Some (snd (parseTypeHints q))\<rparr>
              in case currentPreparedStatement st of
                   None \<Rightarrow> (AwaitingCheck processedQuery, opts1, st, w)
                 | Some cached \<Rightarrow>
                     if currentQuery st \<noteq> Some processedQuery then
                       (AwaitingCheck processedQuery, opts1, st, w)
                     else (Returned (Inr cached), opts1, st, w))
         | AwaitingCheck processedQuery \<Rightarrow>
             (case send (getPreparedStatement client statementName (workGroupOf opts))
                     (GetPreparedStatement statementName (workGroupOf opts)) (\<lambda>u. Done) w of
                (got, w1) \<Rightarrow>
                  (AwaitingWrite processedQuery (case got of Inr u \<Rightarrow> True | Inl error \<Rightarrow> False),
                   opts, st, w1))
         | AwaitingWrite processedQuery statementExists \<Rightarrow>
             (case (if statementExists then
                      send (updatePreparedStatement client statementName processedQuery
                              (workGroupOf opts))
                        (UpdatePreparedStatement statementName processedQuery (workGroupOf opts))
                        (\<lambda>u. Done) w
                    else
                      send (createPreparedStatement client statementName processedQuery
                              (workGroupOf opts))
                        (CreatePreparedStatement statementName processedQuery (workGroupOf opts))
                        (\<lambda>u. Done) w) of
                (Inl e, w1) \<Rightarrow> (Returned (Inl e), opts, st, w1)
              | (Inr u, w1) \<Rightarrow>
                  (Returned (Inr statementName), opts,
                   st\<lparr>currentPreparedStatement := Some statementName,
                      currentQuery := Some processedQuery\<rparr>,
                   w1))
         | Returned res \<Rightarrow> (Returned res, opts, st, w))"

text \<open>
  Several calls in flight, as the tasks of \<^verbatim>\<open>doLookup\<close> in \<^verbatim>\<open>integration.js\<close> make them, each
  through \<^verbatim>\<open>createQuery\<close>: the schedule names, step by step, the call that advances.
\<close>

fun overlapped ::
  "'r athena \<Rightarrow> string \<Rightarrow> nat list \<Rightarrow> ensure_stage list \<Rightarrow> options \<Rightarrow> integration_state
     \<Rightarrow> 'r world \<Rightarrow> ensure_stage list \<times> options \<times> integration_state \<times> 'r world" where
  "overlapped client directory [] stages opts st w = (stages, opts, st, w)"
| "overlapped client directory (k # schedule) stages opts st w =
     (if k < length stages then
        (case ensureStep client directory (stages ! k) opts st w of
           (stage, opts1, st1, w1) \<Rightarrow>
             overlapped client directory schedule (stages[k := stage]) opts1 st1 w1)
      else overlapped client directory schedule stages opts st w)"

section \<open>Building the query\<close>

text \<open>The \<^verbatim>\<open>for\<close> loop of \<^verbatim>\<open>createQuery\<close>, from index \<open>i\<close> on.\<close>

fun bindParameters :: "js_numbers \<Rightarrow> string \<Rightarrow> type_hint list \<Rightarrow> nat \<Rightarrow> js_error + string list" where
  "bindParameters rt entityValue [] i = Inr []"
| "bindParameters rt entityValue (typeHint # rest) i =
     (case createParameterValue rt entityValue (type typeHint) of
        Inl error \<Rightarrow>
          Inl (Error (''Parameter '' @ string_of_nat (i + 1) @ '': '' @ message error))
      | Inr parameterValue \<Rightarrow>
          (case bindParameters rt entityValue rest (Suc i) of
             Inl e \<Rightarrow> Inl e
           | Inr parameters \<Rightarrow> Inr (parameterValue # parameters)))"

definition queryParamsOf :: "string \<Rightarrow> options \<Rightarrow> query_params" where
  "queryParamsOf queryString opts =
     \<lparr>QueryString = queryString, WorkGroup = workGroupOf opts,
      OutputLocation =
        (case outputLocation opts of
           None \<Rightarrow> None
         | Some l \<Rightarrow> if l \<noteq> [] \<and> length (trim l) > 0 then Some l else None)\<rparr>"

text \<open>\<^verbatim>\<open>createQuery(entity, options, preparedStatementName)\<close>; the entity is its \<^verbatim>\<open>value\<close>.\<close>

definition createQuery ::
  "js_numbers \<Rightarrow> string \<Rightarrow> options \<Rightarrow> string option \<Rightarrow> js_error + query_params" where
  "createQuery rt entity opts preparedStatementName =
     (if includesStr (query opts) ''?'' then
        (case preparedStatementName of
           None \<Rightarrow> Inl (Error ''Prepared statement name required for parameterized queries'')
         | Some psName \<Rightarrow>
             if psName = [] then
               Inl (Error ''Prepared statement name required for parameterized queries'')
             else
               (case bindParameters rt entity
                       (case typeHints opts of None \<Rightarrow> [] | Some hs \<Rightarrow> hs) 0 of
                  Inl e \<Rightarrow> Inl e
                | Inr parameters \<Rightarrow>
                    Inr (queryParamsOf
                      (''EXECUTE '' @ psName @ '' USING '' @ join '', '' parameters) opts)))
      else Inr (queryParamsOf (query opts) opts))"

section \<open>Executing a query\<close>

definition MAX_QUERY_STATUS_POLLING_ATTEMPTS :: nat where
  "MAX_QUERY_STATUS_POLLING_ATTEMPTS = 10"

definition POLLING_WAIT_INTERVAL :: nat where
  "POLLING_WAIT_INTERVAL = 3000"

text \<open>The constants \<^verbatim>\<open>maxAttempts\<close> and \<^verbatim>\<open>waitInterval\<close> of the first version.\<close>

definition maxAttempts_v1 :: nat where
  "maxAttempts_v1 = 15"

definition waitInterval_v1 :: nat where
  "waitInterval_v1 = 3000"

text \<open>\<^verbatim>\<open>error.message.match(/bucket ([^\s]+)/)\<close>: the first group of the leftmost match.\<close>

fun bucketMatch :: "string \<Rightarrow> string option" where
  "bucketMatch [] = None"
| "bucketMatch (c # cs) =
     (if startsWith (c # cs) ''bucket '' \<and>
         takeWhile (\<lambda>x. \<not> isWhiteSpace x) (drop 7 (c # cs)) \<noteq> []
      then Some (takeWhile (\<lambda>x. \<not> isWhiteSpace x) (drop 7 (c # cs)))
      else bucketMatch cs)"

text \<open>The \<^verbatim>\<open>catch\<close> block around the start of the execution.\<close>

definition startError :: "js_error \<Rightarrow> js_error" where
  "startError error =
     (if name error = ''InvalidRequestException'' \<and> message error \<noteq> [] \<and>
         includesStr (message error) ''output bucket''
      then
        Error (''S3 output bucket error: '' @ message error @ ''. Please ensure the bucket '' @
               [apostrophe] @
               (case bucketMatch (message error) of Some b \<Rightarrow> b | None \<Rightarrow> ''unknown'') @
               [apostrophe] @
               '' exists and the IAM user has s3:PutObject and s3:GetBucketLocation permissions, or configure a WorkGroup with a default output location.'')
      else
        Error (''Failed to start Athena query: '' @
               (if message error \<noteq> [] then message error
                else if name error \<noteq> [] then name error else ''Unknown error'')))"

text \<open>
  How the \<^verbatim>\<open>while\<close> loop ends: by its \<^verbatim>\<open>return\<close> when the attempts are used up, by its
  condition when the status is neither \<^verbatim>\<open>RUNNING\<close> nor \<^verbatim>\<open>QUEUED\<close>, or by the rejection of a
  status check.
\<close>

datatype loop_exit =
    TimedOut "query_execution option"
  | Exited string "query_execution option"
  | Raised js_error

text \<open>
  The loop, from the values of \<^verbatim>\<open>queryStatus\<close>, \<^verbatim>\<open>attempts\<close> and \<^verbatim>\<open>statusResult\<close> at the head
  of an iteration.
\<close>

function pollLoop ::
  "'r athena \<Rightarrow> nat \<Rightarrow> nat \<Rightarrow> string \<Rightarrow> string \<Rightarrow> nat \<Rightarrow> query_execution option \<Rightarrow> 'r world
     \<Rightarrow> loop_exit \<times> 'r world" where
  "pollLoop client maxAttempts waitInterval qid queryStatus attempts statusResult w =
     (if queryStatus = ''RUNNING'' \<or> queryStatus = ''QUEUED'' then
        (if attempts \<ge> maxAttempts then (TimedOut statusResult, w)
         else
           (case send (getQueryExecution client qid) (GetQueryExecution qid) QueryExecution
                   (sleep waitInterval w) of
              (Inl e, w1) \<Rightarrow> (Raised e, w1)
            | (Inr sr, w1) \<Rightarrow>
                pollLoop client maxAttempts waitInterval qid (State sr) (Suc attempts) (Some sr) w1))
      else (Exited queryStatus statusResult, w))"
  by pat_completeness auto
termination
  by (relation "measure (\<lambda>(client, maxAttempts, waitInterval, qid, queryStatus, attempts, rest).
                    maxAttempts - attempts)") auto

text \<open>\<^verbatim>\<open>x || null\<close> for a number that may be absent.\<close>

definition orNull :: "nat option \<Rightarrow> nat option" where
  "orNull x = (case x of None \<Rightarrow> None | Some n \<Rightarrow> if n = 0 then None else Some n)"

text \<open>The first row holds the headers; every other row becomes an object.\<close>

definition headerName :: "string option list \<Rightarrow> nat \<Rightarrow> string" where
  "headerName headers i =
     (if i < length headers then (case headers ! i of Some h \<Rightarrow> h | None \<Rightarrow> ''undefined'')
      else ''undefined'')"

definition rowObject :: "string option list \<Rightarrow> string option list \<Rightarrow> row" where
  "rowObject headers cells =
     foldl (\<lambda>obj (col, i). setProperty (headerName headers i) col obj) []
       (zip cells [0 ..< length cells])"

definition materialize :: "result_rows \<Rightarrow> row list" where
  "materialize rows =
     (case rows of
        None \<Rightarrow> []
      | Some [] \<Rightarrow> []
      | Some (headerRow # dataRows) \<Rightarrow> map (rowObject headerRow) dataRows)"

text \<open>
  What \<^verbatim>\<open>executeAthenaQuery\<close> and \<^verbatim>\<open>checkQueryStatusAndGetResults\<close> return; \<open>results = None\<close>
  is \<^verbatim>\<open>undefined\<close>.
\<close>

record query_result =
  results :: "row list option"
  complete :: bool
  queryExecutionId :: string
  executionStats :: "execution_stats option"

text \<open>The statistics of an execution that is still pending.\<close>

definition incompleteStats :: "string \<Rightarrow> query_execution option \<Rightarrow> execution_stats" where
  "incompleteStats st statusResult =
     \<lparr>status = Some st,
      elapsedSeconds = (case statusResult of None \<Rightarrow> None | Some sr \<Rightarrow> Elapsed sr),
      dataScannedBytes =
        (case statusResult of None \<Rightarrow> None | Some sr \<Rightarrow> orNull (DataScannedInBytes sr))\<rparr>"

definition queryStats :: "query_execution \<Rightarrow> execution_stats" where
  "queryStats sr =
     \<lparr>status = None, elapsedSeconds = None, dataScannedBytes = orNull (DataScannedInBytes sr)\<rparr>"

text \<open>\<^verbatim>\<open>GetQueryResults\<close> with \<^verbatim>\<open>MaxResults: options.limit || 100\<close>, and the conversion.\<close>

definition fetchResults ::
  "'r athena \<Rightarrow> string \<Rightarrow> options \<Rightarrow> execution_stats option \<Rightarrow> 'r world
     \<Rightarrow> (js_error + query_result) \<times> 'r world" where
  "fetchResults client qid opts stats w =
     (let maxResults = (if limit opts = 0 then 100 else limit opts)
      in case send (getQueryResults client qid maxResults) (GetQueryResults qid maxResults)
                ResultSet w of
           (Inl e, w1) \<Rightarrow> (Inl e, w1)
         | (Inr rows, w1) \<Rightarrow>
             (Inr \<lparr>query_result.results = Some (materialize rows), complete = True,
                   queryExecutionId = qid, executionStats = stats\<rparr>, w1))"

text \<open>What reading a property of \<^verbatim>\<open>null\<close> throws.\<close>

definition nullProperty :: js_error where
  "nullProperty = TypeError ''Cannot read properties of null''"

text \<open>\<^verbatim>\<open>`${x}`\<close> for a string that may be \<^verbatim>\<open>undefined\<close>.\<close>

definition interpolate :: "string option \<Rightarrow> string" where
  "interpolate x = (case x of None \<Rightarrow> ''undefined'' | Some s \<Rightarrow> s)"

text \<open>
  \<^verbatim>\<open>executeAthenaQuery\<close> after its loop: the \<^verbatim>\<open>if\<close> on \<^verbatim>\<open>FAILED\<close> and \<^verbatim>\<open>CANCELLED\<close>, then the
  results, for every other status.  The current version reads the statistics of the last
  status response first (\<open>withStats\<close>); the first version does not.
\<close>

definition afterPolling ::
  "'r athena \<Rightarrow> bool \<Rightarrow> string \<Rightarrow> options \<Rightarrow> string \<Rightarrow> query_execution option \<Rightarrow> 'r world
     \<Rightarrow> (js_error + query_result) \<times> 'r world" where
  "afterPolling client withStats qid opts queryStatus statusResult w =
     (if queryStatus = ''FAILED'' \<or> queryStatus = ''CANCELLED'' then
        (if queryStatus = ''FAILED'' then
           (case statusResult of
              None \<Rightarrow> (Inl nullProperty, w)
            | Some sr \<Rightarrow>
                (Inl (Error (''Query failed: '' @ interpolate (StateChangeReason sr))), w))
         else (Inl (Error ''Query was cancelled''), w))
      else if withStats then
        (case statusResult of
           None \<Rightarrow> (Inl nullProperty, w)
         | Some sr \<Rightarrow> fetchResults client qid opts (Some (queryStats sr)) w)
      else fetchResults client qid opts None w)"

text \<open>
  The body of \<^verbatim>\<open>executeAthenaQuery\<close>.  Its two versions differ in the number of attempts, in
  the name of the interval, and in the statistics, which only the current version returns.
\<close>

definition executeAthenaQueryWith ::
  "bool \<Rightarrow> nat \<Rightarrow> nat \<Rightarrow> 'r athena \<Rightarrow> query_params \<Rightarrow> options \<Rightarrow> 'r world
     \<Rightarrow> (js_error + query_result) \<times> 'r world" where
  "executeAthenaQueryWith withStats maxAttempts waitInterval client queryParams opts w =
     (case send (startQueryExecution client queryParams) (StartQueryExecution queryParams)
             QueryExecutionId w of
        (Inl error, w1) \<Rightarrow> (Inl (startError error), w1)
      | (Inr qid, w1) \<Rightarrow>
          (case pollLoop client maxAttempts waitInterval qid ''RUNNING'' 0 None w1 of
             (TimedOut statusResult, w2) \<Rightarrow>
               (Inr \<lparr>query_result.results = None, complete = False, queryExecutionId = qid,
                     executionStats =
                       (if withStats then Some (incompleteStats ''RUNNING'' statusResult)
                        else None)\<rparr>, w2)
           | (Raised e, w2) \<Rightarrow> (Inl e, w2)
           | (Exited queryStatus statusResult, w2) \<Rightarrow>
               afterPolling client withStats qid opts queryStatus statusResult w2))"

text \<open>\<^verbatim>\<open>executeAthenaQuery(athenaClient, queryParams, options)\<close> of the current version.\<close>

definition executeAthenaQuery ::
  "'r athena \<Rightarrow> query_params \<Rightarrow> options \<Rightarrow> 'r world \<Rightarrow> (js_error + query_result) \<times> 'r world" where
  "executeAthenaQuery client queryParams opts w =
     executeAthenaQueryWith True MAX_QUERY_STATUS_POLLING_ATTEMPTS POLLING_WAIT_INTERVAL
       client queryParams opts w"

text \<open>\<^verbatim>\<open>executeAthenaQuery\<close> of the first version (\<^verbatim>\<open>integration.js\<close>).\<close>

definition executeAthenaQuery_v1 ::
  "'r athena \<Rightarrow> query_params \<Rightarrow> options \<Rightarrow> 'r world \<Rightarrow> (js_error + query_result) \<times> 'r world" where
  "executeAthenaQuery_v1 client queryParams opts w =
     executeAthenaQueryWith False maxAttempts_v1 waitInterval_v1 client queryParams opts w"

text \<open>\<^verbatim>\<open>checkQueryStatusAndGetResults(queryExecutionId, options)\<close>: one status check.\<close>

definition checkQueryStatusAndGetResults ::
  "'r athena \<Rightarrow> string \<Rightarrow> options \<Rightarrow> 'r world \<Rightarrow> (js_error + query_result) \<times> 'r world" where
  "checkQueryStatusAndGetResults client qid opts w =
     (case send (getQueryExecution client qid) (GetQueryExecution qid) QueryExecution w of
        (Inl e, w1) \<Rightarrow> (Inl e, w1)
      | (Inr sr, w1) \<Rightarrow>
          (let queryStatus = State sr
           in if queryStatus = ''SUCCEEDED'' then
                fetchResults client qid opts (Some (queryStats sr)) w1
              else if queryStatus = ''RUNNING'' \<or> queryStatus = ''QUEUED'' then
                (Inr \<lparr>query_result.results = Some [], complete = False, queryExecutionId = qid,
                      executionStats = Some (incompleteStats queryStatus (Some sr))\<rparr>, w1)
              else if queryStatus = ''FAILED'' \<or> queryStatus = ''CANCELLED'' then
                (Inl (Error (''Query '' @ toLowerCase queryStatus @ '': '' @
                        (case StateChangeReason sr of
                           None \<Rightarrow> ''Unknown error''
                         | Some r \<Rightarrow> if r = [] then ''Unknown error'' else r))), w1)
              else (Inl (Error (''Unknown query status: '' @ queryStatus)), w1)))"

section \<open>Formatting and the lookup\<close>

record formatted_result =
  summary :: "string list"
  details :: details

text \<open>\<^verbatim>\<open>formatQueryResult(queryResult, options)\<close>.\<close>

definition formatQueryResult ::
  "luxon \<Rightarrow> js_numbers \<Rightarrow> integration_state \<Rightarrow> query_result \<Rightarrow> options
     \<Rightarrow> js_error + formatted_result" where
  "formatQueryResult lx rt st queryResult opts =
     (if \<not> query_result.complete queryResult then
        (let stats = query_result.executionStats queryResult;
             statusAttributes =
               [(''Status'',
                 (case stats of
                    None \<Rightarrow> ''Running''
                  | Some s \<Rightarrow>
                      (case status s of
                         None \<Rightarrow> ''Running''
                       | Some t \<Rightarrow> if t = [] then ''Running'' else t))),
                (''Query Execution ID'', query_result.queryExecutionId queryResult)] @
               (case stats of
                  None \<Rightarrow> []
                | Some s \<Rightarrow>
                    (case elapsedSeconds s of
                       None \<Rightarrow> []
                     | Some e \<Rightarrow> if e = [] then [] else [(''Elapsed Time'', e @ ''s'')]) @
                    (case dataScannedBytes s of
                       None \<Rightarrow> []
                     | Some n \<Rightarrow>
                         if n = 0 then [] else [(''Data Scanned'', megabytes rt n @ '' MB'')]))
         in Inr \<lparr>summary = [''Query Running''],
                 details =
                   \<lparr>showAsJson = False,
                    results = Documents [\<lparr>title = Some ''Query Status'',
                                          attributes = statusAttributes,
                                          resultAsString = None\<rparr>],
                    complete = False,
                    queryExecutionId = Some (query_result.queryExecutionId queryResult),
                    executionStats = stats\<rparr>\<rparr>)
      else
        (case query_result.results queryResult of
           None \<Rightarrow>
             Inr \<lparr>summary = [''No results''],
                  details = \<lparr>showAsJson = False, results = Documents [], complete = True,
                             queryExecutionId = Some (query_result.queryExecutionId queryResult),
                             executionStats = query_result.executionStats queryResult\<rparr>\<rparr>
         | Some rs \<Rightarrow>
             if length rs = 0 then
               Inr \<lparr>summary = [''No results''],
                    details = \<lparr>showAsJson = False, results = Documents [], complete = True,
                               queryExecutionId = Some (query_result.queryExecutionId queryResult),
                               executionStats = query_result.executionStats queryResult\<rparr>\<rparr>
             else
               (case getSummaryTags lx st rs opts of
                  Inl e \<Rightarrow> Inl e
                | Inr tags \<Rightarrow>
                    (case getDetails lx st rs (query_result.complete queryResult)
                            (Some (query_result.queryExecutionId queryResult))
                            (query_result.executionStats queryResult) of
                       Inl e \<Rightarrow> Inl e
                     | Inr d \<Rightarrow> Inr \<lparr>summary = tags, details = d\<rparr>))))"

text \<open>\<^verbatim>\<open>optionsHaveChanged(options)\<close>: its answer and the state it leaves.\<close>

definition optionsHaveChanged :: "options \<Rightarrow> integration_state \<Rightarrow> bool \<times> integration_state" where
  "optionsHaveChanged opts st =
     (case originalOptions st of
        None \<Rightarrow> (True, st\<lparr>originalOptions := Some opts\<rparr>)
      | Some orig \<Rightarrow>
          if region orig \<noteq> region opts \<or> endpoint orig \<noteq> endpoint opts \<or>
             accessKeyId orig \<noteq> accessKeyId opts \<or> secretAccessKey orig \<noteq> secretAccessKey opts
          then (True, st\<lparr>originalOptions := Some opts\<rparr>)
          else (False, st))"

definition initializeAthenaClient :: "options \<Rightarrow> client_options" where
  "initializeAthenaClient opts =
     \<lparr>clientRegion = region opts,
      credentials =
        (if length (accessKeyId opts) > 0 \<or> length (secretAccessKey opts) > 0
         then Some (accessKeyId opts, secretAccessKey opts) else None)\<rparr>"

text \<open>The result for one entity: \<^verbatim>\<open>{ entity, data }\<close>, with \<open>None\<close> for \<^verbatim>\<open>data: null\<close>.\<close>

record lookup_result =
  entity :: string
  data :: "formatted_result option"

text \<open>
  What a task of \<^verbatim>\<open>doLookup\<close> does with the result of \<^verbatim>\<open>executeAthenaQuery\<close>, for the entity
  \<open>ent\<close>.
\<close>

definition taskResult ::
  "luxon \<Rightarrow> js_numbers \<Rightarrow> integration_state \<Rightarrow> options \<Rightarrow> string \<Rightarrow> query_result
     \<Rightarrow> js_error + lookup_result" where
  "taskResult lx rt st opts ent queryResult =
     (if \<not> query_result.complete queryResult then
        (case formatQueryResult lx rt st queryResult opts of
           Inl e \<Rightarrow> Inl e
         | Inr formattedResult \<Rightarrow> Inr \<lparr>entity = ent, data = Some formattedResult\<rparr>)
      else if (case query_result.results queryResult of
                 None \<Rightarrow> True | Some rs \<Rightarrow> length rs = 0) then
        Inr \<lparr>entity = ent, data = None\<rparr>
      else
        (case formatQueryResult lx rt st queryResult opts of
           Inl e \<Rightarrow> Inl e
         | Inr formattedResult \<Rightarrow> Inr \<lparr>entity = ent, data = Some formattedResult\<rparr>))"

text \<open>One of the \<^verbatim>\<open>searchTasks\<close> of \<^verbatim>\<open>doLookup\<close>, when nothing else runs between its steps.\<close>

definition searchTask ::
  "luxon \<Rightarrow> js_numbers \<Rightarrow> 'r athena \<Rightarrow> integration_state \<Rightarrow> options \<Rightarrow> string option \<Rightarrow> string
     \<Rightarrow> 'r world \<Rightarrow> (js_error + lookup_result) \<times> 'r world" where
  "searchTask lx rt client st opts preparedStatementName ent w =
     (case createQuery rt ent opts preparedStatementName of
        Inl e \<Rightarrow> (Inl e, w)
      | Inr queryParams \<Rightarrow>
          (case executeAthenaQuery client queryParams opts w of
             (Inl e, w1) \<Rightarrow> (Inl e, w1)
           | (Inr queryResult, w1) \<Rightarrow> (taskResult lx rt st opts ent queryResult, w1)))"

text \<open>
  The tasks in flight.  A task gives up control at each \<^verbatim>\<open>await\<close> and runs alone between
  them, and the service answers a command at some time after the task has sent it.  So a
  task advances by one event at a time, and its stage tells what it is waiting for: the
  promise of \<^verbatim>\<open>createQuery\<close> (\<open>Binding\<close>); the answer to \<^verbatim>\<open>StartQueryExecution\<close>, not yet given
  (\<open>Submitting\<close>) or given and not yet taken (\<open>Submitted\<close>); the end of the wait before a
  status check (\<open>Sleeping\<close>, with the handle, \<^verbatim>\<open>attempts\<close> and \<^verbatim>\<open>statusResult\<close>); the answer to
  \<^verbatim>\<open>GetQueryExecution\<close> (\<open>Checking\<close>, \<open>Checked\<close>); the answer to \<^verbatim>\<open>GetQueryResults\<close> (\<open>Fetching\<close>,
  \<open>Fetched\<close>, with the handle and the statistics).  A task that has returned or thrown is
  \<open>Settled\<close>.
\<close>

datatype task_stage =
    Binding "js_error + query_params"
  | Submitting query_params
  | Submitted "js_error + string"
  | Sleeping string nat "query_execution option"
  | Checking string nat "query_execution option"
  | Checked string nat "js_error + query_execution"
  | Fetching string "execution_stats option"
  | Fetched string "execution_stats option" "js_error + result_rows"
  | Settled "js_error + lookup_result"

definition isSettled :: "task_stage \<Rightarrow> bool" where
  "isSettled stage = (case stage of Settled r \<Rightarrow> True | _ \<Rightarrow> False)"

text \<open>
  \<^verbatim>\<open>executeAthenaQuery\<close> of the current version from the head of its loop to the next
  \<^verbatim>\<open>await\<close>, or to the end of the task when the loop is left without one.
\<close>

definition loopHead ::
  "luxon \<Rightarrow> js_numbers \<Rightarrow> integration_state \<Rightarrow> options \<Rightarrow> string \<Rightarrow> string \<Rightarrow> string \<Rightarrow> nat
     \<Rightarrow> query_execution option \<Rightarrow> task_stage" where
  "loopHead lx rt st opts ent qid queryStatus attempts statusResult =
     (if queryStatus = ''RUNNING'' \<or> queryStatus = ''QUEUED'' then
        (if attempts \<ge> MAX_QUERY_STATUS_POLLING_ATTEMPTS then
           Settled (taskResult lx rt st opts ent
             \<lparr>query_result.results = None, complete = False, queryExecutionId = qid,
              executionStats = Some (incompleteStats ''RUNNING'' statusResult)\<rparr>)
         else Sleeping qid attempts statusResult)
      else if queryStatus = ''FAILED'' \<or> queryStatus = ''CANCELLED'' then
        (if queryStatus = ''FAILED'' then
           (case statusResult of
              None \<Rightarrow> Settled (Inl nullProperty)
            | Some sr \<Rightarrow>
                Settled (Inl (Error (''Query failed: '' @ interpolate (StateChangeReason sr)))))
         else Settled (Inl (Error ''Query was cancelled'')))
      else
        (case statusResult of
           None \<Rightarrow> Settled (Inl nullProperty)
         | Some sr \<Rightarrow> Fetching qid (Some (queryStats sr))))"

text \<open>
  One event of a task: the service answers the command that is in flight, which puts the
  exchange on the trace, or the task takes what it was waiting for and runs on.
\<close>

definition taskStep ::
  "luxon \<Rightarrow> js_numbers \<Rightarrow> 'r athena \<Rightarrow> integration_state \<Rightarrow> options \<Rightarrow> string \<Rightarrow> task_stage
     \<Rightarrow> 'r world \<Rightarrow> task_stage \<times> 'r world" where
  "taskStep lx rt client st opts ent stage w =
     (case stage of
        Binding bound \<Rightarrow>
          (case bound of
             Inl e \<Rightarrow> (Settled (Inl e), w)
           | Inr queryParams \<Rightarrow> (Submitting queryParams, w))
      | Submitting queryParams \<Rightarrow>
          (case send (startQueryExecution client queryParams) (StartQueryExecution queryParams)
                  QueryExecutionId w of
             (answer, w1) \<Rightarrow> (Submitted answer, w1))
      | Submitted answer \<Rightarrow>
          (case answer of
             Inl error \<Rightarrow> (Settled (Inl (startError error)), w)
           | Inr qid \<Rightarrow> (loopHead lx rt st opts ent qid ''RUNNING'' 0 None, w))
      | Sleeping qid attempts statusResult \<Rightarrow>
          (Checking qid attempts statusResult, sleep POLLING_WAIT_INTERVAL w)
      | Checking qid attempts statusResult \<Rightarrow>
          (case send (getQueryExecution client qid) (GetQueryExecution qid) QueryExecution w of
             (answer, w1) \<Rightarrow> (Checked qid attempts answer, w1))
      | Checked qid attempts answer \<Rightarrow>
          (case answer of
             Inl e \<Rightarrow> (Settled (Inl e), w)
           | Inr sr \<Rightarrow> (loopHead lx rt st opts ent qid (State sr) (Suc attempts) (Some sr), w))
      | Fetching qid stats \<Rightarrow>
          (let maxResults = (if limit opts = 0 then 100 else limit opts)
           in case send (getQueryResults client qid maxResults) (GetQueryResults qid maxResults)
                     ResultSet w of
                (answer, w1) \<Rightarrow> (Fetched qid stats answer, w1))
      | Fetched qid stats answer \<Rightarrow>
          (case answer of
             Inl e \<Rightarrow> (Settled (Inl e), w)
           | Inr rows \<Rightarrow>
               (Settled (taskResult lx rt st opts ent
                  \<lparr>query_result.results = Some (materialize rows), complete = True,
                   queryExecutionId = qid, executionStats = stats\<rparr>), w))
      | Settled r \<Rightarrow> (Settled r, w))"

text \<open>\<open>n\<close> events of one task in a row.\<close>

fun taskRun ::
  "luxon \<Rightarrow> js_numbers \<Rightarrow> 'r athena \<Rightarrow> integration_state \<Rightarrow> options \<Rightarrow> string \<Rightarrow> nat \<Rightarrow> task_stage
     \<Rightarrow> 'r world \<Rightarrow> task_stage \<times> 'r world" where
  "taskRun lx rt client st opts ent 0 stage w = (stage, w)"
| "taskRun lx rt client st opts ent (Suc n) stage w =
     (case taskStep lx rt client st opts ent stage w of
        (stage1, w1) \<Rightarrow> taskRun lx rt client st opts ent n stage1 w1)"

text \<open>
  \<^verbatim>\<open>await async.parallelLimit(searchTasks, 10)\<close>.  The tasks are started in their order, ten
  at first and one more whenever a started task returns, as long as no task has thrown;
  the first error that a task throws rejects the promise, and the tasks that were started
  run on.  A started task is at \<^verbatim>\<open>await createQuery(...)\<close>, and \<^verbatim>\<open>createQuery\<close> has run.
\<close>

record lookup_pool =
  stages :: "task_stage list"
  started :: nat
  rejection :: "js_error option"

definition initialPool :: "js_numbers \<Rightarrow> options \<Rightarrow> string option \<Rightarrow> string list \<Rightarrow> lookup_pool" where
  "initialPool rt opts preparedStatementName entities =
     \<lparr>stages = map (\<lambda>ent. Binding (createQuery rt ent opts preparedStatementName)) entities,
      started = min 10 (length entities),
      rejection = None\<rparr>"

text \<open>
  The next event of the task with index \<open>k\<close>, when that task is started and not settled;
  nothing otherwise.
\<close>

definition advance ::
  "luxon \<Rightarrow> js_numbers \<Rightarrow> 'r athena \<Rightarrow> integration_state \<Rightarrow> options \<Rightarrow> string list \<Rightarrow> nat
     \<Rightarrow> lookup_pool \<Rightarrow> 'r world \<Rightarrow> lookup_pool \<times> 'r world" where
  "advance lx rt client st opts entities k pool w =
     (if k < started pool \<and> k < length (stages pool) \<and> \<not> isSettled (stages pool ! k) then
        (case taskStep lx rt client st opts (entities ! k) (stages pool ! k) w of
           (stage, w1) \<Rightarrow>
             (let pool1 = pool\<lparr>stages := (stages pool)[k := stage]\<rparr>
              in case stage of
                   Settled r \<Rightarrow>
                     (case r of
                        Inl e \<Rightarrow>
                          (if rejection pool = None then pool1\<lparr>rejection := Some e\<rparr> else pool1, w1)
                      | Inr x \<Rightarrow>
                          (if rejection pool = None \<and> started pool < length (stages pool) then
                             pool1\<lparr>started := Suc (started pool)\<rparr>
                           else pool1, w1))
                 | _ \<Rightarrow> (pool1, w1)))
      else (pool, w))"

text \<open>
  The events of the tasks in the order of a schedule, which names, event by event, the
  task that advances.  Every order in which the runtime and the service can let the tasks
  advance is a schedule.
\<close>

fun parallelLimit ::
  "luxon \<Rightarrow> js_numbers \<Rightarrow> 'r athena \<Rightarrow> integration_state \<Rightarrow> options \<Rightarrow> string list \<Rightarrow> nat list
     \<Rightarrow> lookup_pool \<Rightarrow> 'r world \<Rightarrow> lookup_pool \<times> 'r world" where
  "parallelLimit lx rt client st opts entities [] pool w = (pool, w)"
| "parallelLimit lx rt client st opts entities (k # schedule) pool w =
     (case advance lx rt client st opts entities k pool w of
        (pool1, w1) \<Rightarrow> parallelLimit lx rt client st opts entities schedule pool1 w1)"

text \<open>The results of the tasks that have returned, in the order of the tasks.\<close>

definition settledResults :: "task_stage list \<Rightarrow> lookup_result list" where
  "settledResults tasks =
     concat (map (\<lambda>stage. case stage of Settled r \<Rightarrow> (case r of Inr x \<Rightarrow> [x] | Inl e \<Rightarrow> [])
                          | _ \<Rightarrow> []) tasks)"

text \<open>The object that \<^verbatim>\<open>errorToPojo(err, detail)\<close> builds from an error.\<close>

record error_pojo =
  pojoName :: string
  pojoMessage :: string
  detail :: string
  pojoRequestId :: "string option"
  pojoHttpStatusCode :: "nat option"

definition errorToPojo :: "js_error \<Rightarrow> string \<Rightarrow> error_pojo" where
  "errorToPojo err det =
     \<lparr>pojoName = name err, pojoMessage = message err,
      detail = (if det \<noteq> [] then det
                else if message err \<noteq> [] then message err
                else ''Unexpected error encountered''),
      pojoRequestId = (case metadata err of None \<Rightarrow> None | Some m \<Rightarrow> requestId m),
      pojoHttpStatusCode = (case metadata err of None \<Rightarrow> None | Some m \<Rightarrow> httpStatusCode m)\<rparr>"

text \<open>
  How a call of \<^verbatim>\<open>doLookup\<close> ends: the callback gets an error, or it gets the results, or
  the promise of \<^verbatim>\<open>doLookup\<close> is rejected before the callback is called.  \<open>NotCalled\<close> is the
  state of a call whose tasks are still in flight at the end of the schedule.
\<close>

datatype lookup_outcome =
    CallbackError error_pojo
  | CallbackResults "lookup_result list"
  | Unhandled js_error
  | NotCalled

text \<open>
  \<^verbatim>\<open>doLookup\<close> before its tasks: the client and the caches are brought up to date, and the
  prepared statement is ensured when the query has a placeholder.  That \<^verbatim>\<open>await\<close> is outside
  the \<^verbatim>\<open>try\<close> block.
\<close>

definition prepareLookup ::
  "'r athena \<Rightarrow> string \<Rightarrow> options \<Rightarrow> integration_state \<Rightarrow> 'r world
     \<Rightarrow> (js_error + string option) \<times> options \<times> integration_state \<times> 'r world" where
  "prepareLookup client directory opts st0 w =
     (let st1 = (if originalOptions st0 = None then st0\<lparr>originalOptions := Some opts\<rparr> else st0);
          changed = optionsHaveChanged opts st1;
          st2 = (if fst changed \<or> athenaClient (snd changed) = None then
                   (snd changed)\<lparr>athenaClient := Some (initializeAthenaClient opts),
                                  currentPreparedStatement := None, currentQuery := None\<rparr>
                 else snd changed);
          st3 = setCachedDisplayAttributes opts st2
      in if includesStr (query opts) ''?'' then
           (case ensurePreparedStatement client directory (query opts) opts st3 w of
              (Inl e, opts1, st4, w1) \<Rightarrow> (Inl e, opts1, st4, w1)
            | (Inr psName, opts1, st4, w1) \<Rightarrow> (Inr (Some psName), opts1, st4, w1))
         else (Inr None, opts, st3, w))"

text \<open>
  What the callback has got when the tasks are in a given state: the error that rejected
  the promise of \<^verbatim>\<open>parallelLimit\<close>, or the results when every task has returned.
\<close>

definition outcomeOf :: "lookup_pool \<Rightarrow> lookup_outcome" where
  "outcomeOf pool =
     (case rejection pool of
        Some lookupError \<Rightarrow>
          CallbackError (errorToPojo lookupError ''Error running Athena SQL query'')
      | None \<Rightarrow>
          if list_all isSettled (stages pool) then CallbackResults (settledResults (stages pool))
          else NotCalled)"

text \<open>The \<^verbatim>\<open>try\<close> block of \<^verbatim>\<open>doLookup\<close> and the call of the callback.\<close>

definition runLookup ::
  "luxon \<Rightarrow> js_numbers \<Rightarrow> 'r athena \<Rightarrow> integration_state \<Rightarrow> options \<Rightarrow> string option
     \<Rightarrow> string list \<Rightarrow> nat list \<Rightarrow> 'r world \<Rightarrow> lookup_outcome \<times> 'r world" where
  "runLookup lx rt client st opts preparedStatementName entities schedule w =
     (case parallelLimit lx rt client st opts entities schedule
             (initialPool rt opts preparedStatementName entities) w of
        (pool, w1) \<Rightarrow> (outcomeOf pool, w1))"

text \<open>
  \<^verbatim>\<open>doLookup(entities, options, cb)\<close> of the current version, its tasks advancing in the
  order of the schedule.
\<close>

definition doLookup ::
  "luxon \<Rightarrow> js_numbers \<Rightarrow> 'r athena \<Rightarrow> string \<Rightarrow> string list \<Rightarrow> options \<Rightarrow> nat list
     \<Rightarrow> integration_state \<Rightarrow> 'r world \<Rightarrow> lookup_outcome \<times> integration_state \<times> 'r world" where
  "doLookup lx rt client directory entities opts schedule st0 w =
     (case prepareLookup client directory opts st0 w of
        (Inl e, opts1, st1, w1) \<Rightarrow> (Unhandled e, st1, w1)
      | (Inr preparedStatementName, opts1, st1, w1) \<Rightarrow>
          (case runLookup lx rt client st1 opts1 preparedStatementName entities schedule w1 of
             (outcome, w2) \<Rightarrow> (outcome, st1, w2)))"

section \<open>Reading a trace\<close>

text \<open>The events that a call added to the trace.\<close>

definition newEvents :: "'r world \<Rightarrow> 'r world \<Rightarrow> event list" where
  "newEvents w w1 = drop (length (trace w)) (trace w1)"

text \<open>The replies to the status checks of a trace, and the waits of a trace, in order.\<close>

fun statusReplies :: "event list \<Rightarrow> reply list" where
  "statusReplies [] = []"
| "statusReplies (Sent (GetQueryExecution q) r # evs) = r # statusReplies evs"
| "statusReplies (e # evs) = statusReplies evs"

fun sleeps :: "event list \<Rightarrow> nat list" where
  "sleeps [] = []"
| "sleeps (Slept ms # evs) = ms # sleeps evs"
| "sleeps (e # evs) = sleeps evs"

text \<open>
  Every status check of the trace comes right after a wait of the given length, and
  the trace has no other wait.
\<close>

fun sleepBeforeEachCheck :: "nat \<Rightarrow> event list \<Rightarrow> bool" where
  "sleepBeforeEachCheck ms [] = True"
| "sleepBeforeEachCheck ms (Slept n # Sent (GetQueryExecution q) r # evs) =
     (n = ms \<and> sleepBeforeEachCheck ms evs)"
| "sleepBeforeEachCheck ms (Slept n # evs) = False"
| "sleepBeforeEachCheck ms (Sent (GetQueryExecution q) r # evs) = False"
| "sleepBeforeEachCheck ms (e # evs) = sleepBeforeEachCheck ms evs"

text \<open>The execution handle that the submission returned, when the trace starts with one.\<close>

definition submittedId :: "event list \<Rightarrow> string option" where
  "submittedId evs =
     (case evs of
        Sent (StartQueryExecution p) (QueryExecutionId qid) # rest \<Rightarrow> Some qid
      | _ \<Rightarrow> None)"

definition pendingState :: "string \<Rightarrow> bool" where
  "pendingState s = (s = ''RUNNING'' \<or> s = ''QUEUED'')"

text \<open>A status check was answered, with a state that is \<^verbatim>\<open>RUNNING\<close> or \<^verbatim>\<open>QUEUED\<close>.\<close>

definition pendingReply :: "reply \<Rightarrow> bool" where
  "pendingReply r = (case r of QueryExecution qe \<Rightarrow> pendingState (State qe) | _ \<Rightarrow> False)"

text \<open>The events of the rounds of the polling loop that got the given replies.\<close>

definition rounds :: "nat \<Rightarrow> string \<Rightarrow> reply list \<Rightarrow> event list" where
  "rounds waitInterval qid replies =
     concat (map (\<lambda>r. [Slept waitInterval, Sent (GetQueryExecution qid) r]) replies)"

text \<open>
  A sequence of calls of \<^verbatim>\<open>ensurePreparedStatement\<close>, one for each query of a list: for each
  call its result and the events that it added to the trace.
\<close>

fun ensureEach ::
  "'r athena \<Rightarrow> string \<Rightarrow> options \<Rightarrow> string list \<Rightarrow> integration_state \<Rightarrow> 'r world
     \<Rightarrow> ((js_error + string) \<times> event list) list" where
  "ensureEach client directory opts [] st w = []"
| "ensureEach client directory opts (q # qs) st w =
     (case ensurePreparedStatement client directory q opts st w of
        (res, opts1, st1, w1) \<Rightarrow>
          (res, newEvents w w1) # ensureEach client directory opts1 qs st1 w1)"

text \<open>
  The events of one refresh: the existence check, then the update when the check
  succeeded and the creation when it was rejected.
\<close>

fun refreshEvents :: "string \<Rightarrow> string \<Rightarrow> string \<Rightarrow> event list \<Rightarrow> bool" where
  "refreshEvents nm t wg [Sent c1 g, Sent c2 r] =
     (c1 = GetPreparedStatement nm wg \<and>
      c2 = (if g = Done then UpdatePreparedStatement nm t wg
            else CreatePreparedStatement nm t wg))"
| "refreshEvents nm t wg evs = False"

text \<open>An update or a creation, and one that succeeded.\<close>

definition successfulWrite :: "event \<Rightarrow> bool" where
  "successfulWrite e =
     (case e of
        Sent (UpdatePreparedStatement nm t wg) r \<Rightarrow> r = Done
      | Sent (CreatePreparedStatement nm t wg) r \<Rightarrow> r = Done
      | _ \<Rightarrow> False)"

definition isWrite :: "event \<Rightarrow> bool" where
  "isWrite e =
     (case e of
        Sent (UpdatePreparedStatement nm t wg) r \<Rightarrow> True
      | Sent (CreatePreparedStatement nm t wg) r \<Rightarrow> True
      | _ \<Rightarrow> False)"

text \<open>The shape of one call: a cache hit, or one refresh.\<close>

definition callShape :: "string \<Rightarrow> string \<Rightarrow> string \<Rightarrow> (js_error + string) \<times> event list \<Rightarrow> bool" where
  "callShape nm t wg call =
     (if snd call = [] then \<not> isl (fst call)
      else refreshEvents nm t wg (snd call) \<and>
           (if successfulWrite (last (snd call)) then fst call = Inr nm else isl (fst call)))"

text \<open>
  What holds of the tasks of a lookup at every moment: there is one for each entity; the
  promise is rejected exactly when a task has thrown, with the error of such a task; and
  a task that has returned has returned the result of its own entity.
\<close>

definition poolInvariant :: "string list \<Rightarrow> lookup_pool \<Rightarrow> bool" where
  "poolInvariant entities pool =
     (length (stages pool) = length entities \<and>
      (case rejection pool of
         None \<Rightarrow> \<forall>k < length entities. \<forall>e. stages pool ! k \<noteq> Settled (Inl e)
       | Some e \<Rightarrow> \<exists>k < length entities. stages pool ! k = Settled (Inl e)) \<and>
      (\<forall>k < length entities. \<forall>r. stages pool ! k = Settled (Inr r) \<longrightarrow> entity r = entities ! k))"

text \<open>
  The tasks that were started: the first ones, none of the others has advanced, and as
  long as no task has thrown there are ten more of them than tasks that have returned,
  or all.
\<close>

definition startedInvariant :: "lookup_pool \<Rightarrow> bool" where
  "startedInvariant pool =
     (started pool \<le> length (stages pool) \<and>
      (\<forall>k. started pool \<le> k \<and> k < length (stages pool) \<longrightarrow> \<not> isSettled (stages pool ! k)) \<and>
      (rejection pool = None \<longrightarrow>
         started pool = min (length (stages pool)) (10 + length (filter isSettled (stages pool)))))"

text \<open>A bound on the number of events that a task at a given stage still has before it.\<close>

fun eventsLeft :: "task_stage \<Rightarrow> nat" where
  "eventsLeft (Binding bound) = 3 * MAX_QUERY_STATUS_POLLING_ATTEMPTS + 8"
| "eventsLeft (Submitting queryParams) = 3 * MAX_QUERY_STATUS_POLLING_ATTEMPTS + 7"
| "eventsLeft (Submitted answer) = 3 * MAX_QUERY_STATUS_POLLING_ATTEMPTS + 6"
| "eventsLeft (Sleeping qid attempts statusResult) =
     3 * (MAX_QUERY_STATUS_POLLING_ATTEMPTS - attempts) + 5"
| "eventsLeft (Checking qid attempts statusResult) =
     3 * (MAX_QUERY_STATUS_POLLING_ATTEMPTS - attempts) + 4"
| "eventsLeft (Checked qid attempts answer) =
     3 * (MAX_QUERY_STATUS_POLLING_ATTEMPTS - attempts) + 3"
| "eventsLeft (Fetching qid stats) = 2"
| "eventsLeft (Fetched qid stats answer) = 1"
| "eventsLeft (Settled r) = 0"

text \<open>The callback was called with an error.\<close>

definition isCallbackError :: "lookup_outcome \<Rightarrow> bool" where
  "isCallbackError outcome = (case outcome of CallbackError p \<Rightarrow> True | _ \<Rightarrow> False)"

section \<open>Sample inputs\<close>

text \<open>
  Inputs at which the theorems below are evaluated.  The sample client answers every
  submission with the handle \<^verbatim>\<open>q-1\<close>, every status check with the same status, and every
  request for results with the same rows.
\<close>

definition sampleClient :: "query_execution \<Rightarrow> result_rows \<Rightarrow> unit athena" where
  "sampleClient qe rows =
     \<lparr>startQueryExecution = (\<lambda>p r. (Inr ''q-1'', r)),
      getQueryExecution = (\<lambda>q r. (Inr qe, r)),
      getQueryResults = (\<lambda>q k r. (Inr rows, r)),
      getPreparedStatement = (\<lambda>n g r. (Inr (), r)),
      updatePreparedStatement = (\<lambda>n t g r. (Inr (), r)),
      createPreparedStatement = (\<lambda>n t g r. (Inr (), r))\<rparr>"

definition sampleOptions :: options where
  "sampleOptions =
     \<lparr>region = ''us-east-1'', endpoint = None, accessKeyId = ''AKIA'', secretAccessKey = ''secret'',
      workGroup = None, outputLocation = None, query = ''SELECT * FROM logs WHERE ip = ?'',
      limit = 0, summaryAttributes = Some ''a'', maxSummaryDocuments = 3,
      detailAttributes = None, documentTitleAttribute = None, typeHints = None\<rparr>"

definition sampleParams :: query_params where
  "sampleParams = \<lparr>QueryString = ''SELECT 1'', WorkGroup = ''primary'', OutputLocation = None\<rparr>"

definition emptyWorld :: "unit world" where
  "emptyWorld = \<lparr>remote = (), trace = []\<rparr>"

definition statusOf :: "string \<Rightarrow> string option \<Rightarrow> query_execution" where
  "statusOf s reason =
     \<lparr>State = s, StateChangeReason = reason, DataScannedInBytes = None, Elapsed = None\<rparr>"

text \<open>
  A date library that knows one epoch value, with the texts that luxon prints for it in
  the locale \<^verbatim>\<open>en-US\<close> and the zone UTC; runtime numbers; three rows; options with a given
  summary specification and maximum.
\<close>

definition sampleLuxon :: luxon where
  "sampleLuxon =
     \<lparr>fromISO = (\<lambda>s. Invalid), fromHTTP = (\<lambda>s. Invalid), fromRFC2822 = (\<lambda>s. Invalid),
      fromSQL = (\<lambda>s. Invalid),
      fromSeconds = (\<lambda>s. if s = ''1649724681'' then Valid ''4/12/2022, 12:51 AM'' else Invalid),
      fromMillis = (\<lambda>s. if s = ''1649724681'' then Valid ''1/20/1970, 2:15 AM'' else Invalid)\<rparr>"

definition sampleNumbers :: js_numbers where
  "sampleNumbers =
     \<lparr>stringOfLargeInt = (\<lambda>i. ''1e+21''), stringOfParseFloat = (\<lambda>s. ''1.5''),
      megabytes = (\<lambda>n. ''0.00'')\<rparr>"

definition sampleRows :: "row list" where
  "sampleRows = [[(''a'', Some ''x'')], [(''a'', Some ''x'')], [(''a'', Some ''y'')]]"

definition summaryOptions :: "string \<Rightarrow> nat \<Rightarrow> options" where
  "summaryOptions spec n = sampleOptions\<lparr>summaryAttributes := Some spec, maxSummaryDocuments := n\<rparr>"

definition throttled :: js_error where
  "throttled = \<lparr>name = ''ThrottlingException'', message = ''Rate exceeded'', metadata = None\<rparr>"

definition notFound :: js_error where
  "notFound = \<lparr>name = ''ResourceNotFoundException'', message = ''Prepared statement not found'', metadata = None\<rparr>"

text \<open>
  A service that keeps the prepared statements by name and rejects the writes while a
  count of rejections is positive: its state is that count and the statements.
\<close>

definition storeClient :: "(nat \<times> (string \<times> string) list) athena" where
  "storeClient =
     \<lparr>startQueryExecution = (\<lambda>p r. (Inr ''q-1'', r)),
      getQueryExecution = (\<lambda>q r. (Inl notFound, r)),
      getQueryResults = (\<lambda>q k r. (Inl notFound, r)),
      getPreparedStatement = (\<lambda>n g r. (if map_of (snd r) n = None then Inl notFound else Inr (), r)),
      updatePreparedStatement = (\<lambda>n t g r.
         if fst r > 0 then (Inl throttled, (fst r - 1, snd r))
         else if map_of (snd r) n = None then (Inl notFound, r)
         else (Inr (), (fst r, (n, t) # snd r))),
      createPreparedStatement = (\<lambda>n t g r.
         if fst r > 0 then (Inl throttled, (fst r - 1, snd r))
         else (Inr (), (fst r, (n, t) # snd r)))\<rparr>"

definition storeWorld :: "nat \<Rightarrow> (nat \<times> (string \<times> string) list) world" where
  "storeWorld k = \<lparr>remote = (k, []), trace = []\<rparr>"

text \<open>
  Options whose query has one placeholder of type \<^verbatim>\<open>int\<close>, and a client whose executions
  succeed at the first status check with one row.
\<close>

definition portOptions :: options where
  "portOptions = sampleOptions\<lparr>query := ''SELECT * FROM flows WHERE port = ?:int''\<rparr>"

definition flowClient :: "unit athena" where
  "flowClient = sampleClient (statusOf ''SUCCEEDED'' None) (Some [[Some ''a''], [Some ''x'']])"

section \<open>Properties of the type-hint parser\<close>

lemma replaceTypeHints_other:
  "c \<noteq> CHR ''?'' \<Longrightarrow>
   replaceTypeHints (c # cs) i = (c # fst (replaceTypeHints cs i), snd (replaceTypeHints cs i))"
  by (simp add: case_prod_beta)

lemma replaceTypeHints_tagged:
  "takeWhile isWordChar ds \<noteq> [] \<Longrightarrow>
   replaceTypeHints (CHR ''?'' # CHR '':'' # ds) i =
     (CHR ''?'' # fst (replaceTypeHints (dropWhile isWordChar ds) (Suc i)),
      \<lparr>index = i, type = takeWhile isWordChar ds\<rparr> #
        snd (replaceTypeHints (dropWhile isWordChar ds) (Suc i)))"
  by (simp add: case_prod_beta)

lemma replaceTypeHints_plain:
  "\<not> hasTag cs \<Longrightarrow>
   replaceTypeHints (CHR ''?'' # cs) i =
     (CHR ''?'' # fst (replaceTypeHints cs (Suc i)),
      \<lparr>index = i, type = ''string''\<rparr> # snd (replaceTypeHints cs (Suc i)))"
  by (cases cs) (auto simp: case_prod_beta hasTag_def)

text \<open>The scan by its four cases: end of text, another character, a tagged placeholder,
  a placeholder without a tag.\<close>

lemma replaceTypeHints_induct [case_names Nil Other Tagged Plain]:
  assumes "\<And>i. P [] i"
    and "\<And>c cs i. c \<noteq> CHR ''?'' \<Longrightarrow> P cs i \<Longrightarrow> P (c # cs) i"
    and "\<And>ds i. takeWhile isWordChar ds \<noteq> [] \<Longrightarrow> P (dropWhile isWordChar ds) (Suc i)
           \<Longrightarrow> P (CHR ''?'' # CHR '':'' # ds) i"
    and "\<And>cs i. \<not> hasTag cs \<Longrightarrow> P cs (Suc i) \<Longrightarrow> P (CHR ''?'' # cs) i"
  shows "P q i"
proof (induction q i rule: replaceTypeHints.induct)
  case (1 i)
  show ?case by (rule assms(1))
next
  case (2 c cs i)
  show ?case
  proof (cases "c = CHR ''?''")
    case False
    then show ?thesis using 2(3) assms(2) by blast
  next
    case True
    show ?thesis
    proof (cases "hasTag cs")
      case False
      have "P cs (Suc i)"
      proof (cases cs)
        case Nil
        then show ?thesis by (simp add: assms(1))
      next
        case (Cons d ds)
        with False have "\<not> (d = CHR '':'' \<and> takeWhile isWordChar ds \<noteq> [])"
          by (simp add: hasTag_def)
        from 2(2)[OF True Cons this] show ?thesis .
      qed
      with False True show ?thesis using assms(4) by blast
    next
      case tagged: True
      then obtain ds where cs: "cs = CHR '':'' # ds" and w: "takeWhile isWordChar ds \<noteq> []"
        by (auto simp: hasTag_def split: list.splits)
      from 2(1)[OF True cs] w have "P (dropWhile isWordChar ds) (Suc i)" by simp
      with w have "P (CHR ''?'' # CHR '':'' # ds) i" by (rule assms(3))
      with True cs show ?thesis by simp
    qed
  qed
qed

declare replaceTypeHints.simps(2) [simp del]

lemma question_not_word: "\<not> isWordChar CHR ''?''"
  by (simp add: isWordChar_def code_def)

lemma placeholders_append: "CHR ''?'' \<notin> set xs \<Longrightarrow> placeholders (xs @ ys) = placeholders ys"
  by (induction xs) auto

lemma placeholders_dropWhile: "placeholders (dropWhile isWordChar ds) = placeholders ds"
proof -
  have "CHR ''?'' \<notin> set (takeWhile isWordChar ds)"
    using question_not_word by (auto dest: set_takeWhileD)
  then have "placeholders (takeWhile isWordChar ds @ dropWhile isWordChar ds) =
      placeholders (dropWhile isWordChar ds)"
    by (rule placeholders_append)
  then show ?thesis by simp
qed

lemma length_placeholders: "length (placeholders q) = count_list q CHR ''?''"
  by (induction q) auto

lemma count_dropWhile: "count_list (dropWhile isWordChar ds) CHR ''?'' = count_list ds CHR ''?''"
  using length_placeholders placeholders_dropWhile by metis

lemma hints_length: "length (snd (replaceTypeHints q i)) = count_list q CHR ''?''"
  by (induction q i rule: replaceTypeHints_induct)
     (simp_all add: replaceTypeHints_other replaceTypeHints_tagged replaceTypeHints_plain
        count_dropWhile)

lemma hints_index: "map index (snd (replaceTypeHints q i)) = [i ..< i + count_list q CHR ''?'']"
  by (induction q i rule: replaceTypeHints_induct)
     (simp_all add: replaceTypeHints_other replaceTypeHints_tagged replaceTypeHints_plain
        count_dropWhile upt_rec)

lemma hints_type: "map type (snd (replaceTypeHints q i)) = map tagAfter (placeholders q)"
  by (induction q i rule: replaceTypeHints_induct)
     (simp_all add: replaceTypeHints_other replaceTypeHints_tagged replaceTypeHints_plain
        placeholders_dropWhile tagAfter_def hasTag_def)

lemma canonical_count:
  "count_list (fst (replaceTypeHints q i)) CHR ''?'' = count_list q CHR ''?''"
  by (induction q i rule: replaceTypeHints_induct)
     (simp_all add: replaceTypeHints_other replaceTypeHints_tagged replaceTypeHints_plain
        count_dropWhile)

lemma bare_not_tagged: "bare (CHR ''?'' # cs) \<Longrightarrow> \<not> hasTag cs"
  by (cases cs; cases "tl cs") (auto simp: hasTag_def)

lemma bare_fixed:
  "bare q \<Longrightarrow>
   replaceTypeHints q i =
     (q, map (\<lambda>k. \<lparr>index = k, type = ''string''\<rparr>) [i ..< i + count_list q CHR ''?''])"
proof (induction q i rule: replaceTypeHints_induct)
  case (Nil i)
  then show ?case by simp
next
  case (Other c cs i)
  then show ?case by (simp add: replaceTypeHints_other)
next
  case (Tagged ds i)
  from Tagged(3) have "\<not> hasTag (CHR '':'' # ds)" by (rule bare_not_tagged)
  with Tagged(1) show ?case by (simp add: hasTag_def)
next
  case (Plain cs i)
  from Plain(3) have "bare cs" by simp
  with Plain show ?case by (simp add: replaceTypeHints_plain upt_rec)
qed

lemma hasTag_iff: "hasTag s = (case s of d # e # es \<Rightarrow> d = CHR '':'' \<and> isWordChar e | _ \<Rightarrow> False)"
  by (auto simp: hasTag_def split: list.splits)

lemma split_pieces: "\<exists>p ps. split sep s = p # ps"
  by (induction s) (auto split: list.splits)

lemma split_other:
  "c \<noteq> sep \<Longrightarrow> split sep cs = p # ps \<Longrightarrow> split sep (c # cs) = (c # p) # ps"
  by simp

lemma split_append:
  "sep \<notin> set xs \<Longrightarrow> split sep ys = p # ps \<Longrightarrow> split sep (xs @ ys) = (xs @ p) # ps"
  by (induction xs) auto

lemma first_piece: "split sep s = p # ps \<Longrightarrow> p = takeWhile (\<lambda>c. c \<noteq> sep) s"
proof (induction s arbitrary: p ps)
  case Nil
  then show ?case by simp
next
  case (Cons c cs)
  obtain p' ps' where s: "split sep cs = p' # ps'" using split_pieces by blast
  from Cons.IH[OF s] Cons.prems s show ?case by (auto split: if_splits)
qed

lemma canonicalTemplate_Nil: "canonicalTemplate [] = []"
  by (simp add: canonicalTemplate_def)

lemma canonicalTemplate_other: "c \<noteq> CHR ''?'' \<Longrightarrow> canonicalTemplate (c # cs) = c # canonicalTemplate cs"
  using split_pieces[of "CHR ''?''" cs] by (auto simp: canonicalTemplate_def)

lemma hasTag_first_piece:
  "split CHR ''?'' cs = p # ps \<Longrightarrow> hasTag p = hasTag cs"
  by (drule first_piece) (auto simp: hasTag_iff question_not_word split: list.splits)

lemma canonicalTemplate_plain:
  assumes "\<not> hasTag cs"
  shows "canonicalTemplate (CHR ''?'' # cs) = CHR ''?'' # canonicalTemplate cs"
proof -
  obtain p ps where s: "split CHR ''?'' cs = p # ps" using split_pieces by blast
  from hasTag_first_piece[OF s] assms have "withoutTag p = p" by (simp add: withoutTag_def)
  with s show ?thesis by (simp add: canonicalTemplate_def)
qed

lemma dropWhile_first_piece:
  assumes "split CHR ''?'' (dropWhile isWordChar ds) = p # ps"
  shows "dropWhile isWordChar p = p"
proof -
  from first_piece[OF assms] have p: "p = takeWhile (\<lambda>c. c \<noteq> CHR ''?'') (dropWhile isWordChar ds)" .
  show ?thesis
  proof (cases "dropWhile isWordChar ds")
    case Nil
    with p show ?thesis by simp
  next
    case (Cons x xs)
    then have "\<not> isWordChar x" by (metis hd_dropWhile list.sel(1) list.distinct(1))
    with p Cons show ?thesis by simp
  qed
qed

lemma canonicalTemplate_tagged:
  assumes "takeWhile isWordChar ds \<noteq> []"
  shows "canonicalTemplate (CHR ''?'' # CHR '':'' # ds) =
     CHR ''?'' # canonicalTemplate (dropWhile isWordChar ds)"
proof -
  let ?tag = "takeWhile isWordChar ds"
  obtain p ps where s: "split CHR ''?'' (dropWhile isWordChar ds) = p # ps"
    using split_pieces by blast
  have nq: "CHR ''?'' \<notin> set (CHR '':'' # ?tag)"
    using question_not_word by (auto dest: set_takeWhileD)
  have "split CHR ''?'' ((CHR '':'' # ?tag) @ dropWhile isWordChar ds) = ((CHR '':'' # ?tag) @ p) # ps"
    using nq s by (rule split_append)
  then have whole: "split CHR ''?'' (CHR '':'' # ds) = (CHR '':'' # ?tag @ p) # ps"
    by simp
  have all: "\<forall>x \<in> set ?tag. isWordChar x" by (auto dest: set_takeWhileD)
  have tw: "takeWhile isWordChar (?tag @ p) = ?tag @ takeWhile isWordChar p"
    using all by (simp add: takeWhile_append2)
  have dw: "dropWhile isWordChar (?tag @ p) = dropWhile isWordChar p"
    using all by (simp add: dropWhile_append2)
  have "hasTag (CHR '':'' # ?tag @ p)"
    using assms tw by (simp add: hasTag_def)
  then have "withoutTag (CHR '':'' # ?tag @ p) = p"
    using dw dropWhile_first_piece[OF s] by (simp add: withoutTag_def)
  with whole s show ?thesis by (simp add: canonicalTemplate_def)
qed

lemma canonical_template: "fst (replaceTypeHints q i) = canonicalTemplate q"
  by (induction q i rule: replaceTypeHints_induct)
     (simp_all add: replaceTypeHints_other replaceTypeHints_tagged replaceTypeHints_plain
        canonicalTemplate_Nil canonicalTemplate_other canonicalTemplate_plain canonicalTemplate_tagged)

lemma hasTag_canonical: "hasTag (fst (replaceTypeHints r i)) = hasTag r"
proof (cases r)
  case Nil
  then show ?thesis by simp
next
  case (Cons d es)
  show ?thesis
  proof (cases "d = CHR '':''")
    case False
    then show ?thesis
      using Cons
      by (cases "d = CHR ''?''"; cases "hasTag es")
         (auto simp: hasTag_iff replaceTypeHints_other replaceTypeHints_plain replaceTypeHints_tagged
            split: list.splits)
  next
    case True
    show ?thesis
    proof (cases es)
      case Nil
      with Cons True show ?thesis by (simp add: replaceTypeHints_other hasTag_iff)
    next
      case (Cons e fs)
      show ?thesis
      proof (cases "e = CHR ''?''")
        case q: True
        have "\<exists>t. fst (replaceTypeHints (CHR ''?'' # fs) i) = CHR ''?'' # t"
          by (cases "hasTag fs")
             (auto simp: replaceTypeHints_plain replaceTypeHints_tagged hasTag_def split: list.splits)
        with \<open>r = d # es\<close> True Cons q show ?thesis
          by (auto simp: replaceTypeHints_other hasTag_iff question_not_word)
      next
        case False
        with \<open>r = d # es\<close> True Cons show ?thesis
          by (simp add: replaceTypeHints_other hasTag_iff)
      qed
    qed
  qed
qed

lemma bare_question: "bare (CHR ''?'' # t) = (\<not> hasTag t \<and> bare t)"
  by (cases t; cases "tl t") (auto simp: hasTag_iff)

lemma bare_other: "c \<noteq> CHR ''?'' \<Longrightarrow> bare (c # t) = bare t"
  by (cases t; cases "tl t") auto

lemma bare_canonical:
  "bare (fst (replaceTypeHints q i)) = (\<not> list_ex tagThenTag (placeholders q))"
proof (induction q i rule: replaceTypeHints_induct)
  case (Nil i)
  then show ?case by simp
next
  case (Other c cs i)
  then show ?case by (simp add: replaceTypeHints_other bare_other del: bare.simps)
next
  case (Tagged ds i)
  have "hasTag (CHR '':'' # ds)" using Tagged(1) by (simp add: hasTag_def)
  then have "tagThenTag (CHR '':'' # ds) = hasTag (dropWhile isWordChar ds)"
    by (simp add: tagThenTag_def withoutTag_def)
  moreover have "placeholders (CHR '':'' # ds) = placeholders (dropWhile isWordChar ds)"
    by (simp add: placeholders_dropWhile)
  ultimately show ?case
    using Tagged by (simp add: replaceTypeHints_tagged bare_question hasTag_canonical del: bare.simps)
next
  case (Plain cs i)
  then show ?case
    by (simp add: replaceTypeHints_plain bare_question hasTag_canonical tagThenTag_def del: bare.simps)
qed

lemma canonical_length: "length (fst (replaceTypeHints q i)) \<le> length q"
proof (induction q i rule: replaceTypeHints_induct)
  case (Tagged ds i)
  have "length (dropWhile isWordChar ds) \<le> length ds" by (rule length_dropWhile_le)
  with Tagged show ?case by (simp add: replaceTypeHints_tagged)
qed (simp_all add: replaceTypeHints_other replaceTypeHints_plain)

lemma changed_shorter: "\<not> bare q \<Longrightarrow> length (fst (replaceTypeHints q i)) < length q"
proof (induction q i rule: replaceTypeHints_induct)
  case (Nil i)
  then show ?case by simp
next
  case (Other c cs i)
  then show ?case by (simp add: replaceTypeHints_other bare_other del: bare.simps)
next
  case (Tagged ds i)
  have "length (fst (replaceTypeHints (dropWhile isWordChar ds) (Suc i))) \<le> length (dropWhile isWordChar ds)"
    by (rule canonical_length)
  also have "\<dots> \<le> length ds" by (rule length_dropWhile_le)
  finally show ?case by (simp add: replaceTypeHints_tagged Tagged(1))
next
  case (Plain cs i)
  then show ?case by (simp add: replaceTypeHints_plain bare_question del: bare.simps)
qed

lemma fixed_iff_bare: "(fst (replaceTypeHints q i) = q) = bare q"
  using bare_fixed[of q i] changed_shorter[of q i] by (cases "bare q") auto

text \<open>
  Claim C8, as the code has it.  A template with \<open>K\<close> characters \<^verbatim>\<open>?\<close> has \<open>K\<close>
  placeholders.  \<^verbatim>\<open>parseTypeHints\<close> returns exactly \<open>K\<close> hints, numbered \<open>0\<close> to \<open>K - 1\<close> in
  source order; the type of each is the tag that follows its \<^verbatim>\<open>?\<close>, and \<^verbatim>\<open>string\<close> when
  none does.  The canonical template is the template in which every placeholder is reduced
  to a bare \<^verbatim>\<open>?\<close>, the tag removed and everything else kept; it has the \<open>K\<close> characters \<^verbatim>\<open>?\<close>,
  and parsing it again gives \<open>K\<close> hints again.  Parsing it again returns it unchanged
  exactly when no tag of the template is itself followed by a colon and a word character,
  and then every hint of the second pass has the type \<^verbatim>\<open>string\<close>.
\<close>

theorem parseTypeHints_hints_in_order:
  "length (snd (parseTypeHints q)) = count_list q CHR ''?'' \<and>
   map index (snd (parseTypeHints q)) = [0 ..< count_list q CHR ''?''] \<and>
   map type (snd (parseTypeHints q)) = map tagAfter (placeholders q) \<and>
   fst (parseTypeHints q) = canonicalTemplate q \<and>
   count_list (fst (parseTypeHints q)) CHR ''?'' = count_list q CHR ''?'' \<and>
   length (snd (parseTypeHints (fst (parseTypeHints q)))) = length (snd (parseTypeHints q)) \<and>
   bare (fst (parseTypeHints q)) = (\<not> list_ex tagThenTag (placeholders q)) \<and>
   (fst (parseTypeHints (fst (parseTypeHints q))) = fst (parseTypeHints q)) =
     (\<not> list_ex tagThenTag (placeholders q)) \<and>
   (\<not> list_ex tagThenTag (placeholders q) \<longrightarrow>
      parseTypeHints (fst (parseTypeHints q)) =
        (fst (parseTypeHints q),
         map (\<lambda>k. \<lparr>index = k, type = ''string''\<rparr>) [0 ..< count_list q CHR ''?'']))"
proof -
  have len: "length (snd (parseTypeHints q)) = count_list q CHR ''?''"
    by (simp add: parseTypeHints_def hints_length)
  have idx: "map index (snd (parseTypeHints q)) = [0 ..< count_list q CHR ''?'']"
    using hints_index[of q 0] by (simp add: parseTypeHints_def)
  have ty: "map type (snd (parseTypeHints q)) = map tagAfter (placeholders q)"
    by (simp add: parseTypeHints_def hints_type)
  have canon: "fst (parseTypeHints q) = canonicalTemplate q"
    by (simp add: parseTypeHints_def canonical_template)
  have cnt: "count_list (fst (parseTypeHints q)) CHR ''?'' = count_list q CHR ''?''"
    by (simp add: parseTypeHints_def canonical_count)
  have again: "length (snd (parseTypeHints (fst (parseTypeHints q)))) =
      length (snd (parseTypeHints q))"
    by (simp add: parseTypeHints_def hints_length canonical_count)
  have b: "bare (fst (parseTypeHints q)) = (\<not> list_ex tagThenTag (placeholders q))"
    by (simp add: parseTypeHints_def bare_canonical)
  have idem: "(fst (parseTypeHints (fst (parseTypeHints q))) = fst (parseTypeHints q)) =
      (\<not> list_ex tagThenTag (placeholders q))"
    using b fixed_iff_bare[of "fst (parseTypeHints q)" 0] by (simp add: parseTypeHints_def)
  have fixed: "parseTypeHints (fst (parseTypeHints q)) =
      (fst (parseTypeHints q),
       map (\<lambda>k. \<lparr>index = k, type = ''string''\<rparr>) [0 ..< count_list q CHR ''?''])"
    if "\<not> list_ex tagThenTag (placeholders q)"
  proof -
    from that b have "bare (fst (parseTypeHints q))" by simp
    from bare_fixed[OF this, of 0] cnt show ?thesis by (simp add: parseTypeHints_def)
  qed
  from len idx ty canon cnt again b idem fixed show ?thesis by blast
qed

theorem parseTypeHints_hints_in_order_witness:
  "\<not> list_ex tagThenTag
       (placeholders ''SELECT * FROM logs WHERE ip = ?:varchar AND port = ?:int OR x = ?'') \<and>
   parseTypeHints ''SELECT * FROM logs WHERE ip = ?:varchar AND port = ?:int OR x = ?'' =
     (''SELECT * FROM logs WHERE ip = ? AND port = ? OR x = ?'',
      [\<lparr>index = 0, type = ''varchar''\<rparr>, \<lparr>index = 1, type = ''int''\<rparr>,
       \<lparr>index = 2, type = ''string''\<rparr>]) \<and>
   parseTypeHints ''SELECT * FROM logs WHERE ip = ? AND port = ? OR x = ?'' =
     (''SELECT * FROM logs WHERE ip = ? AND port = ? OR x = ?'',
      [\<lparr>index = 0, type = ''string''\<rparr>, \<lparr>index = 1, type = ''string''\<rparr>,
       \<lparr>index = 2, type = ''string''\<rparr>])"
proof -
  let ?q = "''SELECT * FROM logs WHERE ip = ?:varchar AND port = ?:int OR x = ?''"
  have c: "parseTypeHints ?q =
     (''SELECT * FROM logs WHERE ip = ? AND port = ? OR x = ?'',
      [\<lparr>index = 0, type = ''varchar''\<rparr>, \<lparr>index = 1, type = ''int''\<rparr>,
       \<lparr>index = 2, type = ''string''\<rparr>])"
    by code_simp
  have b: "\<not> list_ex tagThenTag (placeholders ?q)"
    by code_simp
  have k: "map (\<lambda>k. \<lparr>index = k, type = ''string''\<rparr>) [0 ..< count_list ?q CHR ''?''] =
      [\<lparr>index = 0, type = ''string''\<rparr>, \<lparr>index = 1, type = ''string''\<rparr>,
       \<lparr>index = 2, type = ''string''\<rparr>]"
    by code_simp
  from parseTypeHints_hints_in_order[of ?q] b
  have "parseTypeHints (fst (parseTypeHints ?q)) =
      (fst (parseTypeHints ?q),
       map (\<lambda>k. \<lparr>index = k, type = ''string''\<rparr>) [0 ..< count_list ?q CHR ''?''])"
    by blast
  with b c k show ?thesis by simp
qed

text \<open>
  Against C8 as stated: the tag of \<^verbatim>\<open>?:a:b\<close> is \<^verbatim>\<open>a\<close>, and what is left, \<^verbatim>\<open>?:b\<close>, is a tagged
  placeholder again, so the second pass changes the template.
\<close>

theorem parseTypeHints_not_idempotent:
  "fst (parseTypeHints ''?:a:b'') = ''?:b'' \<and>
   fst (parseTypeHints (fst (parseTypeHints ''?:a:b''))) = ''?'' \<and>
   fst (parseTypeHints (fst (parseTypeHints ''?:a:b''))) \<noteq> fst (parseTypeHints ''?:a:b'')"
  by code_simp

section \<open>Properties of the polling loop\<close>

declare pollLoop.simps [simp del]

lemma send_trace:
  "send call cmd wrap w = (res, w1) \<Longrightarrow>
   trace w1 = trace w @ [Sent cmd (case res of Inl e \<Rightarrow> Failure e | Inr a \<Rightarrow> wrap a)]"
  by (auto simp: send_def split: prod.splits)

lemma pollLoop_rounds:
  "pollLoop client m iv qid st a sr w = (ex, w1) \<Longrightarrow>
   \<exists>replies. trace w1 = trace w @ rounds iv qid replies \<and>
     list_all pendingReply (butlast replies) \<and>
     (case ex of
        TimedOut sr1 \<Rightarrow> pendingState st \<and> a + length replies = max a m \<and> list_all pendingReply replies \<and>
            sr1 = (if replies = [] then sr else (case last replies of QueryExecution qe \<Rightarrow> Some qe | _ \<Rightarrow> None))
      | Raised e \<Rightarrow> pendingState st \<and> replies \<noteq> [] \<and> a + length replies \<le> m \<and> last replies = Failure e
      | Exited st1 sr1 \<Rightarrow> \<not> pendingState st1 \<and> a + length replies \<le> max a m \<and>
            (if replies = [] then st1 = st \<and> sr1 = sr
             else pendingState st \<and> (\<exists>qe. last replies = QueryExecution qe \<and> sr1 = Some qe \<and> st1 = State qe)))"
proof (induction client m iv qid st a sr w arbitrary: ex w1 rule: pollLoop.induct)
  case (1 client m iv qid st a sr w)
  show ?case
  proof (cases "pendingState st")
    case False
    with "1.prems" have "ex = Exited st sr" "w1 = w"
      by (auto simp: pollLoop.simps[of client m iv qid st a sr w] pendingState_def)
    with False show ?thesis
      by (intro exI[of _ "[]"]) (simp add: rounds_def)
  next
    case pend: True
    show ?thesis
    proof (cases "a \<ge> m")
      case True
      with pend "1.prems" have "ex = TimedOut sr" "w1 = w"
        by (auto simp: pollLoop.simps[of client m iv qid st a sr w] pendingState_def)
      with True pend show ?thesis
        by (intro exI[of _ "[]"]) (simp add: rounds_def)
    next
      case False
      obtain res w2 where s: "send (getQueryExecution client qid) (GetQueryExecution qid) QueryExecution
                   (sleep iv w) = (res, w2)" by force
      from send_trace[OF s] have tr: "trace w2 = trace w @ [Slept iv, Sent (GetQueryExecution qid) (case res of Inl e \<Rightarrow> Failure e | Inr a \<Rightarrow> QueryExecution a)]"
        by (simp add: sleep_def)
      show ?thesis
      proof (cases res)
        case (Inl e)
        with s pend False "1.prems" have "ex = Raised e" "w1 = w2"
          by (auto simp: pollLoop.simps[of client m iv qid st a sr w] pendingState_def)
        with tr Inl pend False show ?thesis
          by (intro exI[of _ "[Failure e]"]) (simp add: rounds_def)
      next
        case (Inr qe)
        with s pend False "1.prems" have rec: "pollLoop client m iv qid (State qe) (Suc a) (Some qe) w2 = (ex, w1)"
          by (auto simp: pollLoop.simps[of client m iv qid st a sr w] pendingState_def)
        from pend have c1: "st = ''RUNNING'' \<or> st = ''QUEUED''" by (simp add: pendingState_def)
        from False have c2: "\<not> m \<le> a" by simp
        from "1.IH"[OF c1 c2 s[symmetric] Inr rec]
        obtain replies where R: "trace w1 = trace w2 @ rounds iv qid replies"
          "list_all pendingReply (butlast replies)"
          "(case ex of
        TimedOut sr1 \<Rightarrow> pendingState (State qe) \<and> Suc a + length replies = max (Suc a) m \<and> list_all pendingReply replies \<and>
            sr1 = (if replies = [] then Some qe else (case last replies of QueryExecution qe \<Rightarrow> Some qe | _ \<Rightarrow> None))
      | Raised e \<Rightarrow> pendingState (State qe) \<and> replies \<noteq> [] \<and> Suc a + length replies \<le> m \<and> last replies = Failure e
      | Exited st1 sr1 \<Rightarrow> \<not> pendingState st1 \<and> Suc a + length replies \<le> max (Suc a) m \<and>
            (if replies = [] then st1 = State qe \<and> sr1 = Some qe
             else pendingState (State qe) \<and> (\<exists>qe. last replies = QueryExecution qe \<and> sr1 = Some qe \<and> st1 = State qe)))"
          by blast
        have tr': "trace w1 = trace w @ rounds iv qid (QueryExecution qe # replies)"
          using R(1) tr Inr by (simp add: rounds_def)
        show ?thesis
        proof (intro exI[of _ "QueryExecution qe # replies"] conjI)
          show "trace w1 = trace w @ rounds iv qid (QueryExecution qe # replies)" by (rule tr')
          show "list_all pendingReply (butlast (QueryExecution qe # replies))"
            using R(2,3) by (cases ex) (auto simp: pendingReply_def split: if_splits)
          show "case ex of
    TimedOut sr1 \<Rightarrow>
      pendingState st \<and>
      a + length (QueryExecution qe # replies) = max a m \<and>
      list_all pendingReply (QueryExecution qe # replies) \<and>
      sr1 =
      (if QueryExecution qe # replies = [] then sr
       else case last (QueryExecution qe # replies) of
            QueryExecution qe \<Rightarrow> Some qe | _ \<Rightarrow> None)
    | Exited st1 sr1 \<Rightarrow>
        \<not> pendingState st1 \<and>
        a + length (QueryExecution qe # replies) \<le> max a m \<and>
        (if QueryExecution qe # replies = [] then st1 = st \<and> sr1 = sr
         else pendingState st \<and>
              (\<exists>qe'. last (QueryExecution qe # replies) = QueryExecution qe' \<and>
                    sr1 = Some qe' \<and> st1 = State qe'))
    | Raised e \<Rightarrow>
        pendingState st \<and>
        QueryExecution qe # replies \<noteq> [] \<and>
        a + length (QueryExecution qe # replies) \<le> m \<and>
        last (QueryExecution qe # replies) = Failure e"
            using R(3) pend False by (cases ex) (auto simp: pendingReply_def split: if_splits)
        qed
      qed
    qed
  qed
qed


lemma statusReplies_rounds [simp]: "statusReplies (rounds iv qid replies @ evs) = replies @ statusReplies evs"
  by (induction replies) (simp_all add: rounds_def)

lemma sleeps_rounds [simp]: "sleeps (rounds iv qid replies @ evs) = replicate (length replies) iv @ sleeps evs"
  by (induction replies) (simp_all add: rounds_def)

lemma sleepBeforeEachCheck_rounds [simp]:
  "sleepBeforeEachCheck iv (rounds iv qid replies @ evs) = sleepBeforeEachCheck iv evs"
  by (induction replies) (simp_all add: rounds_def)

lemma newEvents_append [simp]: "trace w1 = trace w @ evs \<Longrightarrow> newEvents w w1 = evs"
  by (simp add: newEvents_def)

lemma fetchResults_events:
  "fetchResults client qid opts stats w = (res, w1) \<Longrightarrow>
   \<exists>k r. trace w1 = trace w @ [Sent (GetQueryResults qid k) r] \<and>
     (case res of Inl e \<Rightarrow> r = Failure e | Inr qr \<Rightarrow> query_result.complete qr)"
  by (auto simp: fetchResults_def Let_def send_def split: prod.splits sum.splits)

lemma afterPolling_events:
  "afterPolling client ws qid opts st sr w = (res, w1) \<Longrightarrow>
   trace w1 = trace w \<or> (\<exists>k r. trace w1 = trace w @ [Sent (GetQueryResults qid k) r])"
  by (auto simp: afterPolling_def split: if_splits option.splits dest: fetchResults_events)

lemma afterPolling_complete:
  "afterPolling client ws qid opts st sr w = (Inr qr, w1) \<Longrightarrow> query_result.complete qr"
  by (auto simp: afterPolling_def split: if_splits option.splits dest: fetchResults_events)

text \<open>What one execution adds to the trace, and how its outcome follows from the replies.\<close>

lemma execution_events:
  assumes run: "executeAthenaQueryWith ws m iv client qp opts w = (res, w1)"
  obtains (Refused) e where "newEvents w w1 = [Sent (StartQueryExecution qp) (Failure e)]"
      and "res = Inl (startError e)"
  | (Suspended) qid replies where
        "newEvents w w1 = Sent (StartQueryExecution qp) (QueryExecutionId qid) # rounds iv qid replies"
      and "length replies = m" and "list_all pendingReply replies"
      and "\<not> isl res" and "\<not> query_result.complete (projr res)"
      and "query_result.results (projr res) = None"
      and "query_result.queryExecutionId (projr res) = qid"
  | (Rejected) qid replies e where
        "newEvents w w1 = Sent (StartQueryExecution qp) (QueryExecutionId qid) # rounds iv qid replies"
      and "length replies \<le> m" and "replies \<noteq> []" and "last replies = Failure e"
      and "list_all pendingReply (butlast replies)"
      and "res = Inl e"
  | (Settled) qid replies qe tail w2 where
        "newEvents w w1 = Sent (StartQueryExecution qp) (QueryExecutionId qid) # rounds iv qid replies @ tail"
      and "length replies \<le> m" and "replies \<noteq> []" and "last replies = QueryExecution qe"
      and "\<not> pendingState (State qe)" and "list_all pendingReply (butlast replies)"
      and "tail = [] \<or> (\<exists>k r. tail = [Sent (GetQueryResults qid k) r])"
      and "afterPolling client ws qid opts (State qe) (Some qe) w2 = (res, w1)"
proof -
  obtain start w0 where s: "send (startQueryExecution client qp) (StartQueryExecution qp) QueryExecutionId w = (start, w0)"
    by force
  from send_trace[OF s] have t0: "trace w0 = trace w @ [Sent (StartQueryExecution qp) (case start of Inl e \<Rightarrow> Failure e | Inr a \<Rightarrow> QueryExecutionId a)]" .
  show thesis
  proof (cases start)
    case (Inl e)
    with run s have "res = Inl (startError e)" "w1 = w0"
      by (auto simp: executeAthenaQueryWith_def)
    with t0 Inl show ?thesis by (intro Refused[of e]) simp_all
  next
    case (Inr qid)
    obtain ex w2 where p: "pollLoop client m iv qid ''RUNNING'' 0 None w0 = (ex, w2)" by force
    from pollLoop_rounds[OF p] obtain replies where
      R: "trace w2 = trace w0 @ rounds iv qid replies" "list_all pendingReply (butlast replies)"
      "(case ex of
        TimedOut sr1 \<Rightarrow> pendingState ''RUNNING'' \<and> 0 + length replies = max 0 m \<and> list_all pendingReply replies \<and>
            sr1 = (if replies = [] then None else (case last replies of QueryExecution qe \<Rightarrow> Some qe | _ \<Rightarrow> None))
      | Raised e \<Rightarrow> pendingState ''RUNNING'' \<and> replies \<noteq> [] \<and> 0 + length replies \<le> m \<and> last replies = Failure e
      | Exited st1 sr1 \<Rightarrow> \<not> pendingState st1 \<and> 0 + length replies \<le> max 0 m \<and>
            (if replies = [] then st1 = ''RUNNING'' \<and> sr1 = None
             else pendingState ''RUNNING'' \<and> (\<exists>qe. last replies = QueryExecution qe \<and> sr1 = Some qe \<and> st1 = State qe)))"
      by blast
    have t2: "trace w2 = trace w @ Sent (StartQueryExecution qp) (QueryExecutionId qid) # rounds iv qid replies"
      using R(1) t0 Inr by simp
    show ?thesis
    proof (cases ex)
      case (TimedOut sr1)
      with run s p Inr have res: "res = Inr \<lparr>query_result.results = None, complete = False, queryExecutionId = qid,
                     executionStats = (if ws then Some (incompleteStats ''RUNNING'' sr1) else None)\<rparr>" and "w1 = w2"
        by (auto simp: executeAthenaQueryWith_def)
      with t2 R(3) TimedOut show ?thesis
        by (intro Suspended[of qid replies]) simp_all
    next
      case (Raised e)
      with run s p Inr have "res = Inl e" "w1 = w2"
        by (auto simp: executeAthenaQueryWith_def)
      with t2 R(2,3) Raised show ?thesis
        by (intro Rejected[of qid replies e]) simp_all
    next
      case (Exited st1 sr1)
      with R(3) have ne: "replies \<noteq> []" and np: "\<not> pendingState st1" and len: "length replies \<le> m"
        by (auto simp: pendingState_def split: if_splits)
      with R(3) Exited obtain qe where qe: "last replies = QueryExecution qe" "sr1 = Some qe" "st1 = State qe"
        by auto
      from run s p Inr Exited qe have ap: "afterPolling client ws qid opts (State qe) (Some qe) w2 = (res, w1)"
        by (auto simp: executeAthenaQueryWith_def)
      from afterPolling_events[OF ap] obtain tail where
        tail: "trace w1 = trace w2 @ tail" "tail = [] \<or> (\<exists>k r. tail = [Sent (GetQueryResults qid k) r])"
        by auto
      from tail(1) t2 have "newEvents w w1 = Sent (StartQueryExecution qp) (QueryExecutionId qid) # rounds iv qid replies @ tail"
        by simp
      with len ne qe np R(2) tail(2) ap show ?thesis
        by (intro Settled[of qid replies tail qe w2]) simp_all
    qed
  qed
qed

lemma polling_budget:
  assumes run: "executeAthenaQueryWith ws m iv client qp opts w = (res, w1)" and m: "0 < m"
  shows "length (statusReplies (newEvents w w1)) \<le> m \<and>
     sleepBeforeEachCheck iv (newEvents w w1) \<and>
     sleeps (newEvents w w1) = replicate (length (statusReplies (newEvents w w1))) iv \<and>
     (length (statusReplies (newEvents w w1)) = m \<and>
      list_all pendingReply (statusReplies (newEvents w w1)) \<longrightarrow>
        \<not> isl res \<and> \<not> query_result.complete (projr res) \<and>
        query_result.results (projr res) = None \<and>
        submittedId (newEvents w w1) = Some (query_result.queryExecutionId (projr res)))"
  using run
proof (cases rule: execution_events)
  case (Refused e)
  with m show ?thesis by simp
next
  case (Suspended qid replies)
  then show ?thesis
    using statusReplies_rounds[of iv qid replies "[]"] sleeps_rounds[of iv qid replies "[]"]
      sleepBeforeEachCheck_rounds[of iv qid replies "[]"]
    by (simp add: submittedId_def)
next
  case (Rejected qid replies e)
  then have "\<not> list_all pendingReply replies"
    by (cases replies rule: rev_cases) (auto simp: pendingReply_def)
  with Rejected show ?thesis
    using statusReplies_rounds[of iv qid replies "[]"] sleeps_rounds[of iv qid replies "[]"]
      sleepBeforeEachCheck_rounds[of iv qid replies "[]"]
    by simp
next
  case (Settled qid replies qe tail w2)
  then have "\<not> list_all pendingReply replies"
    by (cases replies rule: rev_cases) (auto simp: pendingReply_def)
  with Settled show ?thesis by auto
qed

text \<open>
  Claim C1.  An execution makes at most \<^verbatim>\<open>MAX_QUERY_STATUS_POLLING_ATTEMPTS = 10\<close> status checks
  (fifteen in the first version), each right after one wait of the fixed interval, and it
  waits at no other time.  When all of these checks were made and each was answered with
  \<^verbatim>\<open>QUEUED\<close> or \<^verbatim>\<open>RUNNING\<close>, the execution does not throw: it returns
  \<^verbatim>\<open>complete: false\<close>, without results, and its \<^verbatim>\<open>queryExecutionId\<close> is the handle that the
  submission returned.
\<close>

theorem executeAthenaQuery_polling_budget:
  assumes "executeAthenaQuery client qp opts w = (res, w1)"
    and "executeAthenaQuery_v1 client qp opts w = (res', w1')"
  shows "MAX_QUERY_STATUS_POLLING_ATTEMPTS = 10 \<and>
     length (statusReplies (newEvents w w1)) \<le> MAX_QUERY_STATUS_POLLING_ATTEMPTS \<and>
     sleepBeforeEachCheck POLLING_WAIT_INTERVAL (newEvents w w1) \<and>
     sleeps (newEvents w w1) =
       replicate (length (statusReplies (newEvents w w1))) POLLING_WAIT_INTERVAL \<and>
     (length (statusReplies (newEvents w w1)) = MAX_QUERY_STATUS_POLLING_ATTEMPTS \<and>
      list_all pendingReply (statusReplies (newEvents w w1)) \<longrightarrow>
        \<not> isl res \<and> \<not> query_result.complete (projr res) \<and>
        query_result.results (projr res) = None \<and>
        submittedId (newEvents w w1) = Some (query_result.queryExecutionId (projr res))) \<and>
     maxAttempts_v1 = 15 \<and>
     length (statusReplies (newEvents w w1')) \<le> maxAttempts_v1 \<and>
     sleepBeforeEachCheck waitInterval_v1 (newEvents w w1') \<and>
     sleeps (newEvents w w1') =
       replicate (length (statusReplies (newEvents w w1'))) waitInterval_v1 \<and>
     (length (statusReplies (newEvents w w1')) = maxAttempts_v1 \<and>
      list_all pendingReply (statusReplies (newEvents w w1')) \<longrightarrow>
        \<not> isl res' \<and> \<not> query_result.complete (projr res') \<and>
        query_result.results (projr res') = None \<and>
        submittedId (newEvents w w1') = Some (query_result.queryExecutionId (projr res')))"
proof -
  have a: "0 < MAX_QUERY_STATUS_POLLING_ATTEMPTS" "MAX_QUERY_STATUS_POLLING_ATTEMPTS = 10"
    by (simp_all add: MAX_QUERY_STATUS_POLLING_ATTEMPTS_def)
  have b: "0 < maxAttempts_v1" "maxAttempts_v1 = 15"
    by (simp_all add: maxAttempts_v1_def)
  from assms(1) have "executeAthenaQueryWith True MAX_QUERY_STATUS_POLLING_ATTEMPTS
      POLLING_WAIT_INTERVAL client qp opts w = (res, w1)"
    by (simp add: executeAthenaQuery_def)
  note c = polling_budget[OF this a(1)]
  from assms(2) have "executeAthenaQueryWith False maxAttempts_v1 waitInterval_v1
      client qp opts w = (res', w1')"
    by (simp add: executeAthenaQuery_v1_def)
  note d = polling_budget[OF this b(1)]
  from a(2) b(2) c d show ?thesis by blast
qed

lemmas sample_run =
  executeAthenaQuery_def executeAthenaQuery_v1_def executeAthenaQueryWith_def pollLoop.simps
  send_def sleep_def sampleClient_def statusOf_def emptyWorld_def
  MAX_QUERY_STATUS_POLLING_ATTEMPTS_def POLLING_WAIT_INTERVAL_def maxAttempts_v1_def
  waitInterval_v1_def incompleteStats_def newEvents_def pendingReply_def pendingState_def
  submittedId_def

theorem executeAthenaQuery_polling_budget_witness:
  "length (statusReplies (newEvents emptyWorld (snd (executeAthenaQuery
       (sampleClient (statusOf ''QUEUED'' None) None) sampleParams sampleOptions emptyWorld)))) = 10 \<and>
   list_all pendingReply (statusReplies (newEvents emptyWorld (snd (executeAthenaQuery
       (sampleClient (statusOf ''QUEUED'' None) None) sampleParams sampleOptions emptyWorld)))) \<and>
   \<not> query_result.complete (projr (fst (executeAthenaQuery
       (sampleClient (statusOf ''QUEUED'' None) None) sampleParams sampleOptions emptyWorld))) \<and>
   query_result.queryExecutionId (projr (fst (executeAthenaQuery
       (sampleClient (statusOf ''QUEUED'' None) None) sampleParams sampleOptions emptyWorld))) = ''q-1'' \<and>
   length (statusReplies (newEvents emptyWorld (snd (executeAthenaQuery_v1
       (sampleClient (statusOf ''QUEUED'' None) None) sampleParams sampleOptions emptyWorld)))) = 15 \<and>
   query_result.queryExecutionId (projr (fst (executeAthenaQuery_v1
       (sampleClient (statusOf ''QUEUED'' None) None) sampleParams sampleOptions emptyWorld))) = ''q-1''"
proof -
  let ?c = "sampleClient (statusOf ''QUEUED'' None) None"
  let ?r = "executeAthenaQuery ?c sampleParams sampleOptions emptyWorld"
  let ?r1 = "executeAthenaQuery_v1 ?c sampleParams sampleOptions emptyWorld"
  have h: "length (statusReplies (newEvents emptyWorld (snd ?r))) = 10"
    "list_all pendingReply (statusReplies (newEvents emptyWorld (snd ?r)))"
    "submittedId (newEvents emptyWorld (snd ?r)) = Some ''q-1''"
    by (simp_all add: sample_run)
  have h1: "length (statusReplies (newEvents emptyWorld (snd ?r1))) = 15"
    "list_all pendingReply (statusReplies (newEvents emptyWorld (snd ?r1)))"
    "submittedId (newEvents emptyWorld (snd ?r1)) = Some ''q-1''"
    by (simp_all add: sample_run)
  note t = executeAthenaQuery_polling_budget[OF surjective_pairing[of ?r] surjective_pairing[of ?r1]]
  from t have m: "MAX_QUERY_STATUS_POLLING_ATTEMPTS = 10" "maxAttempts_v1 = 15"
    by blast+
  from t have "length (statusReplies (newEvents emptyWorld (snd ?r))) = MAX_QUERY_STATUS_POLLING_ATTEMPTS \<and>
      list_all pendingReply (statusReplies (newEvents emptyWorld (snd ?r))) \<longrightarrow>
      \<not> query_result.complete (projr (fst ?r)) \<and>
      submittedId (newEvents emptyWorld (snd ?r)) = Some (query_result.queryExecutionId (projr (fst ?r)))"
    by blast
  with h m have a: "\<not> query_result.complete (projr (fst ?r))"
    "query_result.queryExecutionId (projr (fst ?r)) = ''q-1''"
    by simp_all
  from t have "length (statusReplies (newEvents emptyWorld (snd ?r1))) = maxAttempts_v1 \<and>
      list_all pendingReply (statusReplies (newEvents emptyWorld (snd ?r1))) \<longrightarrow>
      submittedId (newEvents emptyWorld (snd ?r1)) = Some (query_result.queryExecutionId (projr (fst ?r1)))"
    by blast
  with h1 m have b: "query_result.queryExecutionId (projr (fst ?r1)) = ''q-1''"
    by simp
  from h(1,2) h1(1) a b show ?thesis by blast
qed

section \<open>Terminal and unknown states\<close>

lemma last_pending:
  "list_all pendingReply replies \<Longrightarrow> replies \<noteq> [] \<Longrightarrow> last replies = QueryExecution qe \<Longrightarrow>
   pendingState (State qe)"
  by (induction replies) (auto simp: pendingReply_def split: if_splits)

text \<open>
  What the polling path throws when the last status is a terminal failure: on \<^verbatim>\<open>FAILED\<close> the
  text \<^verbatim>\<open>Query failed: \<close> followed by the \<^verbatim>\<open>StateChangeReason\<close> of that status (the text
  \<^verbatim>\<open>undefined\<close> when it has none), on \<^verbatim>\<open>CANCELLED\<close> a fixed text.  This holds for both
  versions of \<^verbatim>\<open>executeAthenaQuery\<close>, whatever the service does.
\<close>

lemma polled_terminal_failure:
  assumes "executeAthenaQueryWith ws m iv client qp opts w = (res, w1)"
    and "statusReplies (newEvents w w1) \<noteq> []"
    and "last (statusReplies (newEvents w w1)) = QueryExecution qe"
  shows "(State qe = ''FAILED'' \<longrightarrow>
           res = Inl (Error (''Query failed: '' @ interpolate (StateChangeReason qe)))) \<and>
         (State qe = ''CANCELLED'' \<longrightarrow> res = Inl (Error ''Query was cancelled''))"
  using assms(1)
proof (cases rule: execution_events)
  case (Refused e)
  with assms(2) show ?thesis by simp
next
  case (Suspended q replies)
  with assms(2,3) have "replies \<noteq> []" "last replies = QueryExecution qe"
    using statusReplies_rounds[of iv q replies "[]"] by simp_all
  with Suspended(3) have "pendingState (State qe)" by (intro last_pending)
  then show ?thesis by (auto simp: pendingState_def)
next
  case (Rejected q replies e)
  with assms(3) show ?thesis
    using statusReplies_rounds[of iv q replies "[]"] by simp
next
  case (Settled q replies qe' tail w2)
  with assms(3) have "qe' = qe" by auto
  with Settled(8) show ?thesis
    by (auto simp: afterPolling_def)
qed

text \<open>
  What the resumption check throws when the status that it reads is a terminal failure:
  the reason is part of the message for both states, \<^verbatim>\<open>Unknown error\<close> standing in for a
  reason that is missing or empty.
\<close>

lemma resumed_terminal_failure:
  assumes "getQueryExecution client qid (remote w) = (Inr sr, r)"
    and "State sr = ''FAILED'' \<or> State sr = ''CANCELLED''"
  shows "fst (checkQueryStatusAndGetResults client qid opts w) =
     Inl (Error (''Query '' @ toLowerCase (State sr) @ '': '' @
            (case StateChangeReason sr of
               None \<Rightarrow> ''Unknown error''
             | Some reason \<Rightarrow> if reason = [] then ''Unknown error'' else reason)))"
  using assms by (auto simp: checkQueryStatusAndGetResults_def send_def Let_def)

text \<open>
  Claim C4 at an execution that the service reports as \<^verbatim>\<open>CANCELLED\<close> with the reason
  \<^verbatim>\<open>Query cancelled by request of alice\<close>.  The claim says that the error thrown by
  \<^verbatim>\<open>executeAthenaQuery\<close> carries that reason.  The code of both versions throws the fixed
  text \<^verbatim>\<open>Query was cancelled\<close>, in which the reason does not occur.  The same function does
  carry the reason of a \<^verbatim>\<open>FAILED\<close> execution, and the resumption check
  \<^verbatim>\<open>checkQueryStatusAndGetResults\<close> carries the reason of the same cancelled execution.
\<close>

theorem executeAthenaQuery_cancelled_without_reason:
  "fst (executeAthenaQuery
          (sampleClient (statusOf ''CANCELLED'' (Some ''Query cancelled by request of alice'')) None)
          sampleParams sampleOptions emptyWorld) = Inl (Error ''Query was cancelled'') \<and>
   fst (executeAthenaQuery_v1
          (sampleClient (statusOf ''CANCELLED'' (Some ''Query cancelled by request of alice'')) None)
          sampleParams sampleOptions emptyWorld) = Inl (Error ''Query was cancelled'') \<and>
   \<not> includesStr ''Query was cancelled'' ''Query cancelled by request of alice'' \<and>
   fst (executeAthenaQuery
          (sampleClient (statusOf ''FAILED'' (Some ''SYNTAX_ERROR: line 1:8'')) None)
          sampleParams sampleOptions emptyWorld) =
     Inl (Error ''Query failed: SYNTAX_ERROR: line 1:8'') \<and>
   fst (checkQueryStatusAndGetResults
          (sampleClient (statusOf ''CANCELLED'' (Some ''Query cancelled by request of alice'')) None)
          ''q-1'' sampleOptions emptyWorld) =
     Inl (Error ''Query cancelled: Query cancelled by request of alice'')"
proof -
  have lower: "toLowerCase ''CANCELLED'' = ''cancelled''"
    by code_simp
  show ?thesis
    by (simp add: sample_run afterPolling_def interpolate_def checkQueryStatusAndGetResults_def
        lower)
qed

text \<open>The resumption check rejects a state that it does not know.\<close>

lemma checkQueryStatus_unknown:
  assumes "getQueryExecution client qid (remote w) = (Inr sr, r)"
    and "State sr \<notin> {''QUEUED'', ''RUNNING'', ''SUCCEEDED'', ''FAILED'', ''CANCELLED''}"
  shows "fst (checkQueryStatusAndGetResults client qid opts w) =
     Inl (Error (''Unknown query status: '' @ State sr))"
  using assms by (auto simp: checkQueryStatusAndGetResults_def send_def Let_def)

text \<open>
  An execution whose polling ends on a state outside the five known ones goes on to fetch
  the results: its outcome is that of \<^verbatim>\<open>GetQueryResults\<close>, a completed query when the
  service answers.
\<close>

lemma executeAthenaQuery_unknown_state_fetches:
  assumes run: "executeAthenaQueryWith ws m iv client qp opts w = (res, w1)"
    and "statusReplies (newEvents w w1) \<noteq> []"
    and "last (statusReplies (newEvents w w1)) = QueryExecution qe"
    and unknown: "State qe \<notin> {''QUEUED'', ''RUNNING'', ''SUCCEEDED'', ''FAILED'', ''CANCELLED''}"
  shows "(\<exists>qid stats w2. fetchResults client qid opts stats w2 = (res, w1)) \<and>
     (\<not> isl res \<longrightarrow> query_result.complete (projr res))"
  using run
proof (cases rule: execution_events)
  case (Refused e)
  with assms(2) show ?thesis by simp
next
  case (Suspended qid replies)
  with assms(2,3) have "replies \<noteq> []" "last replies = QueryExecution qe"
    using statusReplies_rounds[of iv qid replies "[]"] by simp_all
  with Suspended(3) have "pendingState (State qe)" by (intro last_pending)
  with unknown show ?thesis by (simp add: pendingState_def)
next
  case (Rejected qid replies e)
  with assms(3) show ?thesis
    using statusReplies_rounds[of iv qid replies "[]"] by simp
next
  case (Settled qid replies qe' tail w2)
  with assms(3) have same: "qe' = qe" by auto
  from unknown have nf: "State qe \<noteq> ''FAILED''" "State qe \<noteq> ''CANCELLED''" by simp_all
  from Settled(8) same nf have
    f: "fetchResults client qid opts (if ws then Some (queryStats qe) else None) w2 = (res, w1)"
    by (simp add: afterPolling_def split: if_splits)
  from fetchResults_events[OF f] have "\<not> isl res \<longrightarrow> query_result.complete (projr res)"
    by (cases res) auto
  with f show ?thesis by blast
qed

text \<open>
  Claim C3 at a status check that answers \<^verbatim>\<open>PAUSED\<close>, a state outside the five known ones:
  the resumption check throws \<^verbatim>\<open>Unknown query status: PAUSED\<close>, as the claim says, but
  \<^verbatim>\<open>executeAthenaQuery\<close>, in both versions, leaves its loop, fetches the results and returns
  them as those of a completed query.
\<close>

theorem executeAthenaQuery_unknown_state:
  "fst (executeAthenaQuery
          (sampleClient (statusOf ''PAUSED'' None) (Some [[Some ''ip''], [Some ''8.8.8.8'']]))
          sampleParams sampleOptions emptyWorld) =
     Inr \<lparr>query_result.results = Some [[(''ip'', Some ''8.8.8.8'')]], complete = True,
          queryExecutionId = ''q-1'',
          executionStats = Some \<lparr>status = None, elapsedSeconds = None, dataScannedBytes = None\<rparr>\<rparr> \<and>
   fst (executeAthenaQuery_v1
          (sampleClient (statusOf ''PAUSED'' None) (Some [[Some ''ip''], [Some ''8.8.8.8'']]))
          sampleParams sampleOptions emptyWorld) =
     Inr \<lparr>query_result.results = Some [[(''ip'', Some ''8.8.8.8'')]], complete = True,
          queryExecutionId = ''q-1'', executionStats = None\<rparr> \<and>
   fst (checkQueryStatusAndGetResults
          (sampleClient (statusOf ''PAUSED'' None) (Some [[Some ''ip''], [Some ''8.8.8.8'']]))
          ''q-1'' sampleOptions emptyWorld) = Inl (Error ''Unknown query status: PAUSED'')"
  by (simp add: sample_run afterPolling_def fetchResults_def sampleOptions_def materialize_def
      rowObject_def setProperty_def isArrayIndex_def isDigit_def code_def headerName_def
      queryStats_def orNull_def checkQueryStatusAndGetResults_def)

section \<open>Properties of the parameter binder\<close>

lemma digit_char: "k < 10 \<Longrightarrow> isDigit (char_of (48 + k :: nat))"
  by (simp add: isDigit_def code_def)

lemma string_of_nat_digits: "string_of_nat n \<noteq> [] \<and> list_all isDigit (string_of_nat n)"
proof (induction n rule: string_of_nat.induct)
  case (1 n)
  show ?case
  proof (cases "n < 10")
    case True
    then show ?thesis by (simp add: string_of_nat.simps[of n] digit_char)
  next
    case False
    with 1 have "string_of_nat (n div 10) \<noteq> [] \<and> list_all isDigit (string_of_nat (n div 10))"
      by simp
    moreover have "isDigit (char_of (48 + n mod 10))" by (rule digit_char) simp
    ultimately show ?thesis using False by (simp add: string_of_nat.simps[of n])
  qed
qed

lemma minus_not_digit: "\<not> isDigit CHR ''-''"
  by (simp add: isDigit_def code_def)

lemma stringOfInt_literal: "\<bar>i\<bar> \<le> 2 ^ 53 \<Longrightarrow> isIntegerLiteral (stringOfInt rt i)"
proof -
  assume small: "\<bar>i\<bar> \<le> 2 ^ 53"
  show ?thesis
  proof (cases "i < 0")
    case True
    with small string_of_nat_digits[of "nat (- i)"] show ?thesis
      by (simp add: stringOfInt_def isIntegerLiteral_def)
  next
    case False
    obtain c cs where cs: "string_of_nat (nat i) = c # cs"
      using string_of_nat_digits[of "nat i"] by (cases "string_of_nat (nat i)") auto
    with string_of_nat_digits[of "nat i"] have "isDigit c" "list_all isDigit cs" by simp_all
    with minus_not_digit have "c \<noteq> CHR ''-''" by auto
    with False small cs \<open>isDigit c\<close> \<open>list_all isDigit cs\<close> show ?thesis
      by (simp add: stringOfInt_def isIntegerLiteral_def)
  qed
qed

lemma parseInt_None: "(parseInt v = None) = (\<not> startsWithInteger v)"
proof -
  have "(takeWhile isDigit u = []) = (\<not> (u \<noteq> [] \<and> isDigit (hd u)))" for u
    by (cases u) auto
  then show ?thesis
    by (simp add: parseInt_def startsWithInteger_def Let_def)
qed

lemma bind_integer:
  assumes "toLowerCase ty = ''integer'' \<or> toLowerCase ty = ''int'' \<or> toLowerCase ty = ''bigint''"
  shows "createParameterValue rt v ty =
     (case parseInt v of
        None \<Rightarrow> Inl (Error (''Cannot convert '' @ [dquote] @ v @ [dquote] @ '' to integer type''))
      | Some n \<Rightarrow> Inr (stringOfInt rt n))"
  using assms by (simp add: createParameterValue_def Let_def)

lemma bind_boolean:
  assumes "toLowerCase ty = ''boolean'' \<or> toLowerCase ty = ''bool''"
  shows "createParameterValue rt v ty =
     (if toLowerCase v = ''true'' \<or> toLowerCase v = ''1'' then Inr ''true''
      else if toLowerCase v = ''false'' \<or> toLowerCase v = ''0'' then Inr ''false''
      else Inl (Error (''Cannot convert '' @ [dquote] @ v @ [dquote] @ '' to boolean type'')))"
proof -
  from assms have "toLowerCase ty \<noteq> ''integer''" "toLowerCase ty \<noteq> ''int''"
    "toLowerCase ty \<noteq> ''bigint''" "toLowerCase ty \<noteq> ''decimal''" "toLowerCase ty \<noteq> ''double''"
    "toLowerCase ty \<noteq> ''float''" "toLowerCase ty \<noteq> ''real''"
    by auto
  with assms show ?thesis by (simp add: createParameterValue_def Let_def)
qed

lemma bind_string:
  assumes "toLowerCase ty \<notin> {''integer'', ''int'', ''bigint'', ''decimal'', ''double'', ''float'',
      ''real'', ''boolean'', ''bool''}"
  shows "createParameterValue rt v ty = Inr ([apostrophe] @ escapeEntityValue v @ [apostrophe])"
  using assms by (simp add: createParameterValue_def Let_def)

lemma bind_decimal:
  assumes "toLowerCase ty = ''decimal'' \<or> toLowerCase ty = ''double'' \<or> toLowerCase ty = ''float'' \<or> toLowerCase ty = ''real''"
  shows "createParameterValue rt v ty =
     (if parseFloatIsNaN v
      then Inl (Error (''Cannot convert '' @ [dquote] @ v @ [dquote] @ '' to numeric type''))
      else Inr (stringOfParseFloat rt v))"
proof -
  from assms have "toLowerCase ty \<noteq> ''integer''" "toLowerCase ty \<noteq> ''int''"
    "toLowerCase ty \<noteq> ''bigint''"
    by auto
  with assms show ?thesis by (simp add: createParameterValue_def Let_def)
qed


lemma lower_words:
  "toLowerCase ''integer'' = ''integer''" "toLowerCase ''string'' = ''string''"
  by (simp_all add: toLowerCase_def toLowerChar_def code_def)

text \<open>
  What each branch of the \<^verbatim>\<open>switch\<close> returns.  For the integer types the call fails exactly
  when the value does not start with an integer (white space and one sign may come first);
  otherwise it returns the text of the number that \<^verbatim>\<open>parseInt\<close> read, ignoring what follows
  the digits, and this text is an integer literal when the number is at most \<open>2 ^ 53\<close> in
  magnitude.  For the decimal types it fails exactly when \<^verbatim>\<open>parseFloat\<close> gives \<^verbatim>\<open>NaN\<close>.  For
  the boolean types it returns \<^verbatim>\<open>true\<close> for \<^verbatim>\<open>true\<close> and \<^verbatim>\<open>1\<close>, \<^verbatim>\<open>false\<close> for \<^verbatim>\<open>false\<close> and
  \<^verbatim>\<open>0\<close>, in any case of the letters, and fails for every other value.  For every other
  type it returns the escaped value between single quotes.  So \<^verbatim>\<open>abc\<close> fails as an
  integer, and as strings \<^verbatim>\<open>abc\<close> gives \<^verbatim>\<open>'abc'\<close> and \<^verbatim>\<open>O'Brien\<close> gives \<^verbatim>\<open>'O\'Brien'\<close>.
\<close>

lemma createParameterValue_cases:
  "(toLowerCase ty \<in> {''integer'', ''int'', ''bigint''} \<longrightarrow>
      createParameterValue rt v ty =
        (case parseInt v of
           None \<Rightarrow> Inl (Error (''Cannot convert '' @ [dquote] @ v @ [dquote] @ '' to integer type''))
         | Some n \<Rightarrow> Inr (stringOfInt rt n)) \<and>
      isl (createParameterValue rt v ty) = (\<not> startsWithInteger v) \<and>
      (parseInt v = Some n \<and> \<bar>n\<bar> \<le> 2 ^ 53 \<longrightarrow>
         isIntegerLiteral (projr (createParameterValue rt v ty)))) \<and>
   (toLowerCase ty \<in> {''decimal'', ''double'', ''float'', ''real''} \<longrightarrow>
      isl (createParameterValue rt v ty) = parseFloatIsNaN v) \<and>
   (toLowerCase ty \<in> {''boolean'', ''bool''} \<longrightarrow>
      createParameterValue rt v ty =
        (if toLowerCase v = ''true'' \<or> toLowerCase v = ''1'' then Inr ''true''
         else if toLowerCase v = ''false'' \<or> toLowerCase v = ''0'' then Inr ''false''
         else Inl (Error (''Cannot convert '' @ [dquote] @ v @ [dquote] @ '' to boolean type'')))) \<and>
   (toLowerCase ty \<notin> {''integer'', ''int'', ''bigint'', ''decimal'', ''double'', ''float'',
        ''real'', ''boolean'', ''bool''} \<longrightarrow>
      createParameterValue rt v ty = Inr ([apostrophe] @ escapeEntityValue v @ [apostrophe])) \<and>
   createParameterValue rt ''abc'' ''integer'' =
     Inl (Error (''Cannot convert '' @ [dquote] @ ''abc'' @ [dquote] @ '' to integer type'')) \<and>
   createParameterValue rt ''abc'' ''string'' = Inr ([apostrophe] @ ''abc'' @ [apostrophe]) \<and>
   createParameterValue rt (''O'' @ [apostrophe] @ ''Brien'') ''string'' =
     Inr ([apostrophe] @ ''O'' @ [backslash, apostrophe] @ ''Brien'' @ [apostrophe])"
proof -
  have int1: "createParameterValue rt v ty =
        (case parseInt v of
           None \<Rightarrow> Inl (Error (''Cannot convert '' @ [dquote] @ v @ [dquote] @ '' to integer type''))
         | Some n \<Rightarrow> Inr (stringOfInt rt n))"
    if "toLowerCase ty \<in> {''integer'', ''int'', ''bigint''}"
    using that by (intro bind_integer) simp
  have int2: "isl (createParameterValue rt v ty) = (\<not> startsWithInteger v)"
    if "toLowerCase ty \<in> {''integer'', ''int'', ''bigint''}"
    using int1[OF that] parseInt_None[of v] by (cases "parseInt v") simp_all
  have int3: "isIntegerLiteral (projr (createParameterValue rt v ty))"
    if "toLowerCase ty \<in> {''integer'', ''int'', ''bigint''}" "parseInt v = Some n" "\<bar>n\<bar> \<le> 2 ^ 53"
    using int1[OF that(1)] that(2) stringOfInt_literal[OF that(3), of rt] by simp
  have dec: "isl (createParameterValue rt v ty) = parseFloatIsNaN v"
    if "toLowerCase ty \<in> {''decimal'', ''double'', ''float'', ''real''}"
  proof -
    from that have "toLowerCase ty = ''decimal'' \<or> toLowerCase ty = ''double'' \<or>
        toLowerCase ty = ''float'' \<or> toLowerCase ty = ''real''" by simp
    from bind_decimal[OF this, of rt v] show ?thesis by simp
  qed
  have bool: "createParameterValue rt v ty =
        (if toLowerCase v = ''true'' \<or> toLowerCase v = ''1'' then Inr ''true''
         else if toLowerCase v = ''false'' \<or> toLowerCase v = ''0'' then Inr ''false''
         else Inl (Error (''Cannot convert '' @ [dquote] @ v @ [dquote] @ '' to boolean type'')))"
    if "toLowerCase ty \<in> {''boolean'', ''bool''}"
    using that by (intro bind_boolean) simp
  have str: "createParameterValue rt v ty = Inr ([apostrophe] @ escapeEntityValue v @ [apostrophe])"
    if "toLowerCase ty \<notin> {''integer'', ''int'', ''bigint'', ''decimal'', ''double'', ''float'',
        ''real'', ''boolean'', ''bool''}"
    using that by (rule bind_string)
  have abc: "parseInt ''abc'' = None"
    by (simp add: parseInt_def isWhiteSpace_def isDigit_def code_def)
  have e1: "createParameterValue rt ''abc'' ''integer'' =
     Inl (Error (''Cannot convert '' @ [dquote] @ ''abc'' @ [dquote] @ '' to integer type''))"
    using bind_integer[of "''integer''" rt "''abc''"] abc lower_words by simp
  have e2: "createParameterValue rt ''abc'' ''string'' = Inr ([apostrophe] @ ''abc'' @ [apostrophe])"
    using bind_string[of "''string''" rt "''abc''"] lower_words
    by (simp add: escapeEntityValue_def apostrophe_def backslash_def code_def)
  have e3: "createParameterValue rt (''O'' @ [apostrophe] @ ''Brien'') ''string'' =
     Inr ([apostrophe] @ ''O'' @ [backslash, apostrophe] @ ''Brien'' @ [apostrophe])"
    using bind_string[of "''string''" rt "''O'' @ [apostrophe] @ ''Brien''"] lower_words
    by (simp add: escapeEntityValue_def apostrophe_def backslash_def code_def)
  from int1 int2 int3 dec bool str e1 e2 e3 show ?thesis by blast
qed

text \<open>
  Claim C5 at the value \<^verbatim>\<open>12abc\<close> and the type \<^verbatim>\<open>integer\<close>.  The claim says that for the
  integer types the call fails on every input that is not numeric, and that it never
  returns a literal for a value that it should reject.  \<^verbatim>\<open>12abc\<close> is not an integer
  literal, and the code binds it to \<^verbatim>\<open>12\<close>: the check \<^verbatim>\<open>isNaN(parseInt(entityValue, 10))\<close>
  only sees that the value starts with digits.  The check does reject \<^verbatim>\<open>abc\<close>, and the
  boolean branch, which compares the whole value, rejects \<^verbatim>\<open>1abc\<close>.  The decimal types
  accept the same value, and \<^verbatim>\<open>Infinity\<close>, in the same way.
\<close>

theorem createParameterValue_accepts_numeric_prefix:
  "createParameterValue rt ''12abc'' ''integer'' = Inr ''12'' \<and>
   \<not> isIntegerLiteral ''12abc'' \<and>
   isl (createParameterValue rt ''abc'' ''integer'') \<and>
   isl (createParameterValue rt ''1abc'' ''boolean'') \<and>
   \<not> isl (createParameterValue rt ''12abc'' ''double'') \<and>
   \<not> isl (createParameterValue rt ''Infinity'' ''decimal'')"
  by code_simp

section \<open>Properties of the attribute engine\<close>

lemma split_not_empty: "split sep s \<noteq> []"
  by (induction s) (auto split: list.splits)

lemma length_split: "length (split sep s) = Suc (count_list s sep)"
  by (induction s) (auto split: list.splits simp: split_not_empty)

lemma processColumn_None: "4 \<le> length (split CHR '':'' column) \<Longrightarrow> processColumn column = None"
  by (simp add: processColumn_def Let_def)

lemma processColumn_Some: "length (split CHR '':'' column) < 4 \<Longrightarrow> processColumn column \<noteq> None"
proof -
  assume "length (split CHR '':'' column) < 4"
  moreover have "length (split CHR '':'' column) \<noteq> 0" by (simp add: split_not_empty)
  ultimately have "length (split CHR '':'' column) = 1 \<or> length (split CHR '':'' column) = 2 \<or>
      length (split CHR '':'' column) = 3" by arith
  then show ?thesis by (auto simp: processColumn_def Let_def)
qed

lemma collect_error:
  "x \<in> set xs \<Longrightarrow> f x = Inl e \<Longrightarrow> \<forall>y \<in> set xs. \<forall>e'. f y = Inl e' \<longrightarrow> e' = e \<Longrightarrow>
   collect f xs = Inl e"
proof (induction xs)
  case Nil
  then show ?case by simp
next
  case (Cons y ys)
  show ?case
  proof (cases "f y")
    case (Inl e')
    with Cons.prems(3) have "e' = e" by simp
    with Inl show ?thesis by simp
  next
    case (Inr zs)
    with Cons.prems(1,2) have "x \<in> set ys" by auto
    moreover from Cons.prems(3) have "\<forall>y \<in> set ys. \<forall>e'. f y = Inl e' \<longrightarrow> e' = e" by simp
    ultimately have "collect f ys = Inl e" using Cons.IH Cons.prems(2) by blast
    with Inr show ?thesis by simp
  qed
qed

lemma detailAttribute_error: "detailAttribute lx result ao = Inl e \<Longrightarrow> e = undefinedAttribute"
  by (auto simp: detailAttribute_def split: option.splits if_splits)

lemma summaryTag_error: "summaryTag lx ao result = Inl e \<Longrightarrow> e = undefinedAttribute"
  by (auto simp: summaryTag_def split: option.splits if_splits)

lemma summaryTag_Some: "summaryTag lx (Some a) result \<noteq> Inl e"
  by (auto simp: summaryTag_def split: option.splits if_splits)

lemma collect_summary_error:
  "collect (summaryTag lx ao) rs = Inl e \<Longrightarrow> e = undefinedAttribute"
  by (induction rs) (auto split: sum.splits dest: summaryTag_error)

lemma detailDocument_undefined:
  assumes "None \<in> set attrs"
  shows "detailDocument lx st attrs result = Inl undefinedAttribute"
proof -
  have "collect (detailAttribute lx result) attrs = Inl undefinedAttribute"
  proof (rule collect_error[OF assms])
    show "detailAttribute lx result None = Inl undefinedAttribute"
      by (simp add: detailAttribute_def)
    show "\<forall>y \<in> set attrs. \<forall>e'. detailAttribute lx result y = Inl e' \<longrightarrow> e' = undefinedAttribute"
      using detailAttribute_error by blast
  qed
  then show ?thesis by (simp add: detailDocument_def)
qed

lemma getDetails_undefined:
  assumes "cachedDetailAttributes st = Some attrs" "None \<in> set attrs" "rs \<noteq> []"
  shows "getDetails lx st rs cmpl qid stats = Inl undefinedAttribute"
proof -
  from assms(3) obtain r rest where rs: "rs = r # rest" by (cases rs) auto
  have "collect (detailDocument lx st attrs) rs = Inl undefinedAttribute"
    by (simp add: rs detailDocument_undefined[OF assms(2)])
  moreover from assms(2) have "attrs \<noteq> []" by auto
  ultimately show ?thesis using assms(1) by (simp add: getDetails_def)
qed

lemma getSummaryTags_undefined:
  assumes "cachedSummaryAttributes st = Some attrs" "None \<in> set attrs" "rs \<noteq> []"
    "0 < maxSummaryDocuments opts"
  shows "getSummaryTags lx st rs opts = Inl undefinedAttribute"
proof -
  from assms(3,4) obtain r rest where rs: "take (maxSummaryDocuments opts) rs = r # rest"
    by (cases rs; cases "maxSummaryDocuments opts") auto
  have "collect (\<lambda>ao. collect (summaryTag lx ao) (take (maxSummaryDocuments opts) rs)) attrs =
      Inl undefinedAttribute"
  proof (rule collect_error[OF assms(2)])
    show "collect (summaryTag lx None) (take (maxSummaryDocuments opts) rs) = Inl undefinedAttribute"
      by (simp add: rs summaryTag_def)
    show "\<forall>y \<in> set attrs. \<forall>e'.
        collect (summaryTag lx y) (take (maxSummaryDocuments opts) rs) = Inl e' \<longrightarrow>
        e' = undefinedAttribute"
      using collect_summary_error by blast
  qed
  moreover from assms(2) have "attrs \<noteq> []" by auto
  ultimately show ?thesis using assms(1) by (simp add: getSummaryTags_def)
qed

text \<open>
  Claim C10.  When a token of the attribute specification has four or more fields
  between colons, \<^verbatim>\<open>processAttributeOption\<close> returns \<^verbatim>\<open>undefined\<close> in the place of that
  token.  The consumers read \<^verbatim>\<open>.attribute\<close> of each entry: on such a list \<^verbatim>\<open>getDetails\<close>
  throws a \<^verbatim>\<open>TypeError\<close> as soon as there is a row, \<^verbatim>\<open>getSummaryTags\<close> as soon as there
  is a row and the maximum of documents is positive, and \<^verbatim>\<open>getDocumentTitle\<close> when the
  entry is the first one.
\<close>

theorem processAttributeOption_undefined_entry:
  assumes "i < length (split CHR '','' s)"
    and "4 \<le> length (split CHR '':'' (split CHR '','' s ! i))"
  shows "length (processAttributeOption s) = length (split CHR '','' s) \<and>
     processAttributeOption s ! i = None \<and>
     (cachedDetailAttributes st = Some (processAttributeOption s) \<and> rs \<noteq> [] \<longrightarrow>
        getDetails lx st rs cmpl qid stats = Inl undefinedAttribute) \<and>
     (cachedSummaryAttributes st = Some (processAttributeOption s) \<and> rs \<noteq> [] \<and>
      0 < maxSummaryDocuments opts \<longrightarrow>
        getSummaryTags lx st rs opts = Inl undefinedAttribute) \<and>
     (cachedDocumentTitleAttributes st = Some (processAttributeOption s) \<and> i = 0 \<longrightarrow>
        getDocumentTitle lx st r = Inl undefinedAttribute)"
proof -
  have len: "length (processAttributeOption s) = length (split CHR '','' s)"
    by (simp add: processAttributeOption_def)
  have nth: "processAttributeOption s ! i = None"
    using assms by (simp add: processAttributeOption_def processColumn_None)
  with assms(1) len have mem: "None \<in> set (processAttributeOption s)"
    by (metis nth_mem)
  have title: "getDocumentTitle lx st r = Inl undefinedAttribute"
    if "cachedDocumentTitleAttributes st = Some (processAttributeOption s)" "i = 0"
  proof -
    from that(2) nth assms(1) len obtain rest where "processAttributeOption s = None # rest"
      by (cases "processAttributeOption s") auto
    with that(1) show ?thesis by (simp add: getDocumentTitle_def)
  qed
  from len nth getDetails_undefined[OF _ mem] getSummaryTags_undefined[OF _ mem] title
  show ?thesis by blast
qed

lemmas attribute_eval =
  setCachedDisplayAttributes_def initial_state_def cachedAttributes_def
  sampleOptions_def trim_def isWhiteSpace_def code_def

theorem processAttributeOption_undefined_entry_witness:
  "processAttributeOption ''src_ip,Created:date:seconds:created_epoch'' ! 1 = None \<and>
   getDetails sampleLuxon
     (setCachedDisplayAttributes
        (sampleOptions\<lparr>detailAttributes := Some ''src_ip,Created:date:seconds:created_epoch''\<rparr>)
        initial_state)
     [[(''src_ip'', Some ''8.8.8.8'')]] True None None = Inl undefinedAttribute"
proof -
  let ?s = "''src_ip,Created:date:seconds:created_epoch''"
  let ?st = "setCachedDisplayAttributes (sampleOptions\<lparr>detailAttributes := Some ?s\<rparr>) initial_state"
  have h: "1 < length (split CHR '','' ?s)" "4 \<le> length (split CHR '':'' (split CHR '','' ?s ! 1))"
    by simp_all
  have c: "cachedDetailAttributes ?st = Some (processAttributeOption ?s)"
    by (simp add: attribute_eval)
  have n: "[[(''src_ip'', Some ''8.8.8.8'')]] \<noteq> ([] :: row list)" by simp
  from processAttributeOption_undefined_entry[OF h, of ?st "[[(''src_ip'', Some ''8.8.8.8'')]]" sampleLuxon True None None] c n
  show ?thesis by blast
qed

lemmas summary_eval =
  getSummaryTags_def getSummaryTags_v1_def setCachedDisplayAttributes_def initial_state_def
  cachedAttributes_def processAttributeOption_def processColumn_def summaryOptions_def
  sampleOptions_def sampleRows_def summaryTag_def get_def parseAttribute_def
  parseAttributeSwitch_def countTag_def dedupe_def trim_def isWhiteSpace_def code_def

lemma three: "string_of_nat (Suc (Suc (Suc 0))) = ''3''"
  by code_simp

text \<open>
  Claim C6, as the code has it.  For the rows \<^verbatim>\<open>[{a:"x"}, {a:"x"}, {a:"y"}]\<close> and the summary
  specification \<^verbatim>\<open>a\<close>, whose label is the attribute name itself, \<^verbatim>\<open>getSummaryTags\<close> returns
  \<^verbatim>\<open>["a: x", "a: y"]\<close> with a maximum of three documents (duplicates are removed) and
  \<^verbatim>\<open>["a: x", "3 results"]\<close> with a maximum of one.  With the specification \<^verbatim>\<open>:a\<close>, whose
  label is empty, it returns \<^verbatim>\<open>["x", "y"]\<close> and \<^verbatim>\<open>["x", "3 results"]\<close>.  The first version
  of the function does not remove duplicates.
\<close>

theorem getSummaryTags_example:
  "getSummaryTags lx (setCachedDisplayAttributes (summaryOptions ''a'' 3) initial_state)
      sampleRows (summaryOptions ''a'' 3) = Inr [''a: x'', ''a: y''] \<and>
   getSummaryTags lx (setCachedDisplayAttributes (summaryOptions ''a'' 1) initial_state)
      sampleRows (summaryOptions ''a'' 1) = Inr [''a: x'', ''3 results''] \<and>
   getSummaryTags lx (setCachedDisplayAttributes (summaryOptions '':a'' 3) initial_state)
      sampleRows (summaryOptions '':a'' 3) = Inr [''x'', ''y''] \<and>
   getSummaryTags lx (setCachedDisplayAttributes (summaryOptions '':a'' 1) initial_state)
      sampleRows (summaryOptions '':a'' 1) = Inr [''x'', ''3 results''] \<and>
   getSummaryTags_v1 lx sampleRows (summaryOptions ''a'' 3) = Inr [''a: x'', ''a: x'', ''a: y'']"
  by (simp add: summary_eval three)

text \<open>Against C6 as stated: neither result is the one that the claim gives.\<close>

theorem getSummaryTags_example_differs:
  "getSummaryTags sampleLuxon (setCachedDisplayAttributes (summaryOptions ''a'' 3) initial_state)
      sampleRows (summaryOptions ''a'' 3) \<noteq> Inr [''x'', ''y''] \<and>
   getSummaryTags sampleLuxon (setCachedDisplayAttributes (summaryOptions ''a'' 1) initial_state)
      sampleRows (summaryOptions ''a'' 1) \<noteq> Inr [''3 results'']"
  by (simp add: summary_eval three)

lemma switch_date:
  "dateParser lx p = Some f \<Longrightarrow> parseAttributeSwitch lx a (Some p) = formatted (f a) a"
  unfolding dateParser_def parseAttributeSwitch_def
  by (simp split: if_splits)

lemma switch_other:
  "dateParser lx p = None \<Longrightarrow> parseAttributeSwitch lx a (Some p) = Inr a"
  unfolding dateParser_def parseAttributeSwitch_def
  by (simp split: if_splits)

lemma dateParser_seconds: "dateParser lx ''date-seconds'' = Some (fromSeconds lx)"
  by (simp add: dateParser_def)

lemma dateParser_millis: "dateParser lx ''date-millis'' = Some (fromMillis lx)"
  by (simp add: dateParser_def)

text \<open>
  Claim C9.  \<^verbatim>\<open>parseAttribute\<close> returns a string for every string attribute and every
  parser: under a date parser, the formatted text when the library parses the value, and
  the value itself, unchanged, when the library finds the date invalid or throws; the
  value itself under no parser or an unknown one.  An exception in the \<^verbatim>\<open>try\<close> block never
  leaves the function.  \<^verbatim>\<open>date-seconds\<close> goes to \<^verbatim>\<open>fromSeconds\<close> and \<^verbatim>\<open>date-millis\<close> to
  \<^verbatim>\<open>fromMillis\<close>, so that a value which the library formats differently as seconds and
  as milliseconds, as it does \<^verbatim>\<open>1649724681\<close>, gives two distinct texts.
\<close>

theorem parseAttribute_never_throws:
  "(dateParser lx p = Some f \<and> (f a = Invalid \<or> f a = Throws e) \<longrightarrow>
      parseAttribute lx (Some a) (Some p) = a) \<and>
   (dateParser lx p = Some f \<and> f a = Valid s \<longrightarrow> parseAttribute lx (Some a) (Some p) = s) \<and>
   (dateParser lx p = None \<longrightarrow> parseAttribute lx (Some a) (Some p) = a) \<and>
   parseAttribute lx (Some a) None = a \<and>
   parseAttribute lx None prs = [] \<and>
   (parseAttributeSwitch lx a prs = Inl e \<longrightarrow> parseAttribute lx (Some a) prs = a) \<and>
   (fromSeconds lx a = Valid s1 \<and> fromMillis lx a = Valid s2 \<and> s1 \<noteq> s2 \<longrightarrow>
      parseAttribute lx (Some a) (Some ''date-seconds'') = s1 \<and>
      parseAttribute lx (Some a) (Some ''date-millis'') = s2 \<and>
      parseAttribute lx (Some a) (Some ''date-seconds'') \<noteq>
        parseAttribute lx (Some a) (Some ''date-millis''))"
proof -
  have c1: "parseAttribute lx (Some a) (Some p) = a"
    if "dateParser lx p = Some f" "f a = Invalid \<or> f a = Throws e"
    using that switch_date[OF that(1), of a]
    by (auto simp: parseAttribute_def formatted_def)
  have c2: "parseAttribute lx (Some a) (Some p) = s"
    if "dateParser lx p = Some f" "f a = Valid s"
    using that switch_date[OF that(1), of a]
    by (simp add: parseAttribute_def formatted_def)
  have c3: "parseAttribute lx (Some a) (Some p) = a" if "dateParser lx p = None"
    using switch_other[OF that, of a] by (simp add: parseAttribute_def)
  have c4: "parseAttribute lx (Some a) None = a"
    by (simp add: parseAttribute_def parseAttributeSwitch_def)
  have c5: "parseAttribute lx None prs = []"
    by (simp add: parseAttribute_def)
  have c6: "parseAttribute lx (Some a) prs = a" if "parseAttributeSwitch lx a prs = Inl e"
    using that by (simp add: parseAttribute_def)
  have c7: "parseAttribute lx (Some a) (Some ''date-seconds'') = s1 \<and>
      parseAttribute lx (Some a) (Some ''date-millis'') = s2 \<and>
      parseAttribute lx (Some a) (Some ''date-seconds'') \<noteq>
        parseAttribute lx (Some a) (Some ''date-millis'')"
    if "fromSeconds lx a = Valid s1" "fromMillis lx a = Valid s2" "s1 \<noteq> s2"
    using that switch_date[OF dateParser_seconds, of lx a] switch_date[OF dateParser_millis, of lx a]
    by (simp add: parseAttribute_def formatted_def)
  from c1 c2 c3 c4 c5 c6 c7 show ?thesis by blast
qed

theorem parseAttribute_never_throws_witness:
  "parseAttribute sampleLuxon (Some ''1649724681'') (Some ''date-seconds'') = ''4/12/2022, 12:51 AM'' \<and>
   parseAttribute sampleLuxon (Some ''1649724681'') (Some ''date-millis'') = ''1/20/1970, 2:15 AM'' \<and>
   parseAttribute sampleLuxon (Some ''1649724681'') (Some ''date-seconds'') \<noteq>
     parseAttribute sampleLuxon (Some ''1649724681'') (Some ''date-millis'') \<and>
   parseAttribute sampleLuxon (Some ''not a date'') (Some ''date-iso'') = ''not a date'' \<and>
   parseAttribute sampleLuxon (Some ''not a date'') (Some ''date'') = ''not a date''"
proof -
  have h: "fromSeconds sampleLuxon ''1649724681'' = Valid ''4/12/2022, 12:51 AM''"
    "fromMillis sampleLuxon ''1649724681'' = Valid ''1/20/1970, 2:15 AM''"
    "''4/12/2022, 12:51 AM'' \<noteq> ''1/20/1970, 2:15 AM''"
    "dateParser sampleLuxon ''date-iso'' = Some (fromISO sampleLuxon)"
    "fromISO sampleLuxon ''not a date'' = Invalid"
    "dateParser sampleLuxon ''date'' = None"
    by (simp_all add: sampleLuxon_def dateParser_def)
  note t1 = parseAttribute_never_throws[of sampleLuxon "''date-iso''" "fromISO sampleLuxon"
      "''1649724681''" _ _ _ "''4/12/2022, 12:51 AM''" "''1/20/1970, 2:15 AM''"]
  note t2 = parseAttribute_never_throws[of sampleLuxon "''date-iso''" "fromISO sampleLuxon"
      "''not a date''"]
  note t3 = parseAttribute_never_throws[of sampleLuxon "''date''" _ "''not a date''"]
  from t1 h(1,2,3) have a: "parseAttribute sampleLuxon (Some ''1649724681'') (Some ''date-seconds'') = ''4/12/2022, 12:51 AM'' \<and>
   parseAttribute sampleLuxon (Some ''1649724681'') (Some ''date-millis'') = ''1/20/1970, 2:15 AM'' \<and>
   parseAttribute sampleLuxon (Some ''1649724681'') (Some ''date-seconds'') \<noteq>
     parseAttribute sampleLuxon (Some ''1649724681'') (Some ''date-millis'')"
    by blast
  from t2 h(4,5) have b: "parseAttribute sampleLuxon (Some ''not a date'') (Some ''date-iso'') = ''not a date''"
    by blast
  from t3 h(6) have c: "parseAttribute sampleLuxon (Some ''not a date'') (Some ''date'') = ''not a date''"
    by blast
  from a b c show ?thesis by blast
qed

section \<open>Properties of the prepared statement\<close>

lemma refresh_result:
  assumes "refreshPreparedStatement client nm t wg st w = (res, st1, w1)"
  shows "refreshEvents nm t wg (newEvents w w1) \<and>
     ((successfulWrite (last (newEvents w w1)) \<and> res = Inr nm \<and>
       st1 = st\<lparr>currentPreparedStatement := Some nm, currentQuery := Some t\<rparr>) \<or>
      (\<not> successfulWrite (last (newEvents w w1)) \<and> isl res \<and> st1 = st \<and>
       filter successfulWrite (newEvents w w1) = []))
     \<and> length (filter successfulWrite (newEvents w w1)) \<le> 1 \<and> newEvents w w1 \<noteq> []"
  using assms
  by (auto simp: refreshPreparedStatement_def send_def newEvents_def successfulWrite_def Let_def
      split: prod.splits sum.splits if_splits)


lemma ensure_hit:
  assumes "currentPreparedStatement st = Some h" "currentQuery st = Some (fst (parseTypeHints q))"
  shows "ensurePreparedStatement client directory q opts st w =
     (Inr h, opts\<lparr>typeHints := Some (snd (parseTypeHints q))\<rparr>, st, w)"
  using assms by (simp add: ensurePreparedStatement_def Let_def)

lemma ensure_miss:
  assumes "currentPreparedStatement st = None \<or> currentQuery st \<noteq> Some (fst (parseTypeHints q))"
  shows "ensurePreparedStatement client directory q opts st w =
     (case refreshPreparedStatement client (statementNameOf directory) (fst (parseTypeHints q))
             (workGroupOf opts) st w of
        (res, st1, w1) \<Rightarrow> (res, opts\<lparr>typeHints := Some (snd (parseTypeHints q))\<rparr>, st1, w1))"
  using assms by (auto simp: ensurePreparedStatement_def Let_def split: option.splits prod.splits)

lemma workGroupOf_typeHints [simp]: "workGroupOf (opts\<lparr>typeHints := x\<rparr>) = workGroupOf opts"
  by (simp add: workGroupOf_def)

text \<open>One call: what it adds to the trace, what it returns, and the cache it leaves.\<close>

lemma ensure_call:
  assumes "ensurePreparedStatement client directory q opts st w = (res, opts1, st1, w1)"
  shows "workGroupOf opts1 = workGroupOf opts"
    and "callShape (statementNameOf directory) (fst (parseTypeHints q)) (workGroupOf opts)
           (res, newEvents w w1)"
    and "length (filter successfulWrite (newEvents w w1)) \<le> 1"
    and "\<not> isl res \<Longrightarrow>
           currentPreparedStatement st1 = Some (projr res) \<and>
           currentQuery st1 = Some (fst (parseTypeHints q))"
    and "isl res \<Longrightarrow> filter successfulWrite (newEvents w w1) = []"
    and "currentPreparedStatement st = None \<or> currentQuery st \<noteq> Some (fst (parseTypeHints q)) \<Longrightarrow>
           refreshEvents (statementNameOf directory) (fst (parseTypeHints q)) (workGroupOf opts)
             (newEvents w w1)"
proof -
  let ?t = "fst (parseTypeHints q)"
  show "workGroupOf opts1 = workGroupOf opts"
    using assms by (auto simp: ensurePreparedStatement_def Let_def split: option.splits if_splits prod.splits)
  consider (hit) h where "currentPreparedStatement st = Some h" "currentQuery st = Some ?t"
    | (miss) "currentPreparedStatement st = None \<or> currentQuery st \<noteq> Some ?t"
    by (cases "currentPreparedStatement st") auto
  then have "callShape (statementNameOf directory) ?t (workGroupOf opts) (res, newEvents w w1) \<and>
     length (filter successfulWrite (newEvents w w1)) \<le> 1 \<and>
     (\<not> isl res \<longrightarrow> currentPreparedStatement st1 = Some (projr res) \<and> currentQuery st1 = Some ?t) \<and>
     (isl res \<longrightarrow> filter successfulWrite (newEvents w w1) = []) \<and>
     (currentPreparedStatement st = None \<or> currentQuery st \<noteq> Some ?t \<longrightarrow>
        refreshEvents (statementNameOf directory) ?t (workGroupOf opts) (newEvents w w1))"
  proof cases
    case hit
    from ensure_hit[OF hit, of client directory opts w] assms
    have "res = Inr h" "st1 = st" "w1 = w" by simp_all
    with hit show ?thesis by (simp add: callShape_def newEvents_def)
  next
    case miss
    obtain res' st' w' where r: "refreshPreparedStatement client (statementNameOf directory) ?t
        (workGroupOf opts) st w = (res', st', w')"
      by (metis prod_cases3)
    with ensure_miss[OF miss, of client directory opts w] assms
    have eq: "res' = res" "st' = st1" "w' = w1" by simp_all
    from refresh_result[OF r] eq miss show ?thesis
      by (auto simp: callShape_def)
  qed
  then show "callShape (statementNameOf directory) ?t (workGroupOf opts) (res, newEvents w w1)"
    and "length (filter successfulWrite (newEvents w w1)) \<le> 1"
    and "\<not> isl res \<Longrightarrow>
           currentPreparedStatement st1 = Some (projr res) \<and> currentQuery st1 = Some ?t"
    and "isl res \<Longrightarrow> filter successfulWrite (newEvents w w1) = []"
    and "currentPreparedStatement st = None \<or> currentQuery st \<noteq> Some ?t \<Longrightarrow>
           refreshEvents (statementNameOf directory) ?t (workGroupOf opts) (newEvents w w1)"
    by blast+
qed

text \<open>Once the cache holds the text, every further call with that text is a hit.\<close>

lemma ensureEach_hits:
  assumes "currentPreparedStatement st = Some h" "currentQuery st = Some t"
    "\<forall>q \<in> set qs. fst (parseTypeHints q) = t"
  shows "ensureEach client directory opts qs st w = map (\<lambda>q. (Inr h, [])) qs"
  using assms
proof (induction qs arbitrary: opts)
  case Nil
  then show ?case by simp
next
  case (Cons q qs)
  from Cons.prems have c: "currentQuery st = Some (fst (parseTypeHints q))" by simp
  from ensure_hit[OF Cons.prems(1) c, of client directory opts w] Cons show ?case
    by (simp add: newEvents_def)
qed

lemma ensureEach_length [simp]: "length (ensureEach client directory opts qs st w) = length qs"
  by (induction qs arbitrary: opts st w) (auto split: prod.splits)

lemma ensureEach_sequence:
  assumes "\<forall>q \<in> set qs. fst (parseTypeHints q) = t"
  shows "list_all (callShape (statementNameOf directory) t (workGroupOf opts))
           (ensureEach client directory opts qs st w) \<and>
     length (filter successfulWrite (concat (map snd (ensureEach client directory opts qs st w)))) \<le> 1 \<and>
     (\<forall>i j. i < j \<and> j < length qs \<and> \<not> isl (fst (ensureEach client directory opts qs st w ! i)) \<longrightarrow>
        ensureEach client directory opts qs st w ! j =
          (fst (ensureEach client directory opts qs st w ! i), []))"
  using assms
proof (induction qs arbitrary: opts st w)
  case Nil
  then show ?case by simp
next
  case (Cons q qs)
  obtain res opts1 st1 w1 where e: "ensurePreparedStatement client directory q opts st w = (res, opts1, st1, w1)"
    by (metis prod_cases4)
  note c = ensure_call[OF e]
  from Cons.prems have t: "fst (parseTypeHints q) = t" and rest: "\<forall>q \<in> set qs. fst (parseTypeHints q) = t"
    by simp_all
  note ih = Cons.IH[OF rest, of opts1 st1 w1]
  have runs: "ensureEach client directory opts (q # qs) st w =
      (res, newEvents w w1) # ensureEach client directory opts1 qs st1 w1"
    using e by simp
  have shape_tail: "list_all (callShape (statementNameOf directory) t (workGroupOf opts))
      (ensureEach client directory opts1 qs st1 w1)"
    using ih c(1) by simp
  have shape: "list_all (callShape (statementNameOf directory) t (workGroupOf opts))
      (ensureEach client directory opts (q # qs) st w)"
    using runs shape_tail c(2) t by simp
  have events: "concat (map snd (ensureEach client directory opts (q # qs) st w)) =
      newEvents w w1 @ concat (map snd (ensureEach client directory opts1 qs st1 w1))"
    using runs by simp
  show ?case
  proof (cases "isl res")
    case True
    have later: "ensureEach client directory opts (q # qs) st w ! j =
          (fst (ensureEach client directory opts (q # qs) st w ! i), [])"
      if "i < j" "j < length (q # qs)" "\<not> isl (fst (ensureEach client directory opts (q # qs) st w ! i))"
      for i j
    proof (cases i)
      case 0
      with that(3) runs True show ?thesis by simp
    next
      case (Suc i')
      with that obtain j' where j: "j = Suc j'" "i' < j'" "j' < length qs"
        by (cases j) auto
      from that(3) Suc runs have "\<not> isl (fst (ensureEach client directory opts1 qs st1 w1 ! i'))"
        by simp
      with ih j have "ensureEach client directory opts1 qs st1 w1 ! j' =
          (fst (ensureEach client directory opts1 qs st1 w1 ! i'), [])" by blast
      with Suc j runs show ?thesis by simp
    qed
    from c(5)[OF True] have "filter successfulWrite (newEvents w w1) = []" .
    with events ih have count: "length (filter successfulWrite
        (concat (map snd (ensureEach client directory opts (q # qs) st w)))) \<le> 1"
      by simp
    from shape count later show ?thesis by blast
  next
    case False
    from c(4)[OF False] t have cache: "currentPreparedStatement st1 = Some (projr res)"
      "currentQuery st1 = Some t" by simp_all
    from ensureEach_hits[OF cache rest, of client directory opts1 w1]
    have hits: "ensureEach client directory opts1 qs st1 w1 = map (\<lambda>q. (Inr (projr res), [])) qs" .
    from False have res: "res = Inr (projr res)" by (cases res) simp_all
    have later: "ensureEach client directory opts (q # qs) st w ! j =
          (fst (ensureEach client directory opts (q # qs) st w ! i), [])"
      if "i < j" "j < length (q # qs)" for i j
    proof -
      from that obtain j' where j: "j = Suc j'" "j' < length qs" by (cases j) auto
      show ?thesis
      proof (cases i)
        case 0
        with j runs hits res show ?thesis by simp
      next
        case (Suc i')
        with that j have "i' < length qs" by simp
        with Suc j runs hits show ?thesis by simp
      qed
    qed
    have "concat (map snd (ensureEach client directory opts1 qs st1 w1)) = []"
      by (simp add: hits)
    with events c(3) have count: "length (filter successfulWrite
        (concat (map snd (ensureEach client directory opts (q # qs) st w)))) \<le> 1"
      by simp
    from shape count later show ?thesis by blast
  qed
qed


lemma ensure_rejected:
  assumes "ensurePreparedStatement client directory q opts st w = (res, opts1, st1, w1)"
    and "isl res"
  shows "st1 = st"
    and "currentPreparedStatement st = None \<or> currentQuery st \<noteq> Some (fst (parseTypeHints q))"
proof -
  let ?t = "fst (parseTypeHints q)"
  consider (hit) h where "currentPreparedStatement st = Some h" "currentQuery st = Some ?t"
    | (miss) "currentPreparedStatement st = None \<or> currentQuery st \<noteq> Some ?t"
    by (cases "currentPreparedStatement st") auto
  then have "st1 = st \<and> (currentPreparedStatement st = None \<or> currentQuery st \<noteq> Some ?t)"
  proof cases
    case hit
    from ensure_hit[OF hit, of client directory opts w] assms show ?thesis by simp
  next
    case miss
    obtain res' st' w' where r: "refreshPreparedStatement client (statementNameOf directory) ?t
        (workGroupOf opts) st w = (res', st', w')"
      by (metis prod_cases3)
    with ensure_miss[OF miss, of client directory opts w] assms
    have eq: "res' = res" "st' = st1" "w' = w1" by simp_all
    from refresh_result[OF r] eq assms(2) miss show ?thesis by auto
  qed
  then show "st1 = st"
    and "currentPreparedStatement st = None \<or> currentQuery st \<noteq> Some ?t"
    by simp_all
qed

lemma ensureEach_retry:
  assumes "\<forall>q \<in> set qs. fst (parseTypeHints q) = t"
  shows "\<forall>i. Suc i < length qs \<and> isl (fst (ensureEach client directory opts qs st w ! i)) \<longrightarrow>
     refreshEvents (statementNameOf directory) t (workGroupOf opts)
       (snd (ensureEach client directory opts qs st w ! Suc i))"
  using assms
proof (induction qs arbitrary: opts st w)
  case Nil
  then show ?case by simp
next
  case (Cons q qs)
  obtain res opts1 st1 w1 where e: "ensurePreparedStatement client directory q opts st w = (res, opts1, st1, w1)"
    by (metis prod_cases4)
  note c = ensure_call[OF e]
  from Cons.prems have t: "fst (parseTypeHints q) = t" and rest: "\<forall>q \<in> set qs. fst (parseTypeHints q) = t"
    by simp_all
  note ih = Cons.IH[OF rest, of opts1 st1 w1]
  have runs: "ensureEach client directory opts (q # qs) st w =
      (res, newEvents w w1) # ensureEach client directory opts1 qs st1 w1"
    using e by simp
  have "refreshEvents (statementNameOf directory) t (workGroupOf opts)
       (snd (ensureEach client directory opts (q # qs) st w ! Suc i))"
    if i: "Suc i < length (q # qs)" "isl (fst (ensureEach client directory opts (q # qs) st w ! i))" for i
  proof (cases i)
    case 0
    with i runs have rej: "isl res" by simp
    from i obtain q2 qs2 where qs: "qs = q2 # qs2" by (cases qs) auto
    obtain res2 opts2 st2 w2 where
      e2: "ensurePreparedStatement client directory q2 opts1 st1 w1 = (res2, opts2, st2, w2)"
      by (metis prod_cases4)
    from rest qs have t2: "fst (parseTypeHints q2) = t" by simp
    from ensure_rejected[OF e rej] t t2
    have "currentPreparedStatement st1 = None \<or> currentQuery st1 \<noteq> Some (fst (parseTypeHints q2))"
      by simp
    from ensure_call(6)[OF e2 this] t2 c(1)
    have "refreshEvents (statementNameOf directory) t (workGroupOf opts) (newEvents w1 w2)"
      by simp
    with 0 runs qs e2 show ?thesis by simp
  next
    case (Suc i')
    with i runs have "Suc i' < length qs" "isl (fst (ensureEach client directory opts1 qs st1 w1 ! i'))"
      by simp_all
    with ih c(1) have "refreshEvents (statementNameOf directory) t (workGroupOf opts)
       (snd (ensureEach client directory opts1 qs st1 w1 ! Suc i'))" by simp
    with Suc runs show ?thesis by simp
  qed
  then show ?case by blast
qed

text \<open>A call that no other call overlaps takes its steps in a row.\<close>

lemma overlapped_alone:
  assumes "ensurePreparedStatement client directory q opts st w = (res, opts1, st1, w1)"
  shows "overlapped client directory [0, 0, 0] [Called q] opts st w = ([Returned res], opts1, st1, w1)"
  using assms
  by (auto simp: ensurePreparedStatement_def refreshPreparedStatement_def ensureStep_def Let_def
      split: option.splits prod.splits sum.splits if_splits)

text \<open>
  Claim C2, as the code has it, for calls made one after another, each returning or
  throwing before the next starts, with queries of the same canonical text.  Every call is
  either a cache hit, with no remote call, or one refresh: one existence check followed by
  one update (when the check succeeded) or one creation (when it was rejected), and it
  returns the handle exactly when that write succeeded.  The cache is written only after
  the write succeeded: a call whose write is rejected throws and leaves the cache as it
  was, and the next call is a refresh again; a call that returns leaves the handle and the
  text in the cache, and every later call returns the same handle with no remote call.
  So at most one write succeeds in the whole sequence.  A call whose text differs from the
  cached one is one refresh.  The client has no command that deletes.
\<close>

theorem ensurePreparedStatement_reuses_statement:
  assumes "\<forall>q \<in> set qs. fst (parseTypeHints q) = t"
  shows "list_all (callShape (statementNameOf directory) t (workGroupOf opts))
           (ensureEach client directory opts qs st w) \<and>
     length (filter successfulWrite (concat (map snd (ensureEach client directory opts qs st w)))) \<le> 1 \<and>
     (\<forall>i j. i < j \<and> j < length qs \<and> \<not> isl (fst (ensureEach client directory opts qs st w ! i)) \<longrightarrow>
        ensureEach client directory opts qs st w ! j =
          (fst (ensureEach client directory opts qs st w ! i), [])) \<and>
     (\<forall>i. Suc i < length qs \<and> isl (fst (ensureEach client directory opts qs st w ! i)) \<longrightarrow>
        refreshEvents (statementNameOf directory) t (workGroupOf opts)
          (snd (ensureEach client directory opts qs st w ! Suc i))) \<and>
     (currentPreparedStatement st' = None \<or> currentQuery st' \<noteq> Some (fst (parseTypeHints q')) \<longrightarrow>
        refreshEvents (statementNameOf directory) (fst (parseTypeHints q')) (workGroupOf opts)
          (newEvents w' (snd (snd (snd (ensurePreparedStatement client directory q' opts st' w')))))) \<and>
     (isl (fst (ensurePreparedStatement client directory q' opts st' w')) \<longrightarrow>
        fst (snd (snd (ensurePreparedStatement client directory q' opts st' w'))) = st') \<and>
     (\<not> isl (fst (ensurePreparedStatement client directory q' opts st' w')) \<longrightarrow>
        currentPreparedStatement (fst (snd (snd (ensurePreparedStatement client directory q' opts st' w')))) =
          Some (projr (fst (ensurePreparedStatement client directory q' opts st' w'))) \<and>
        currentQuery (fst (snd (snd (ensurePreparedStatement client directory q' opts st' w')))) =
          Some (fst (parseTypeHints q')))"
proof -
  obtain res opts1 st1 w1 where
    e: "ensurePreparedStatement client directory q' opts st' w' = (res, opts1, st1, w1)"
    by (metis prod_cases4)
  from ensure_call(6)[OF e] e
  have changed: "currentPreparedStatement st' = None \<or> currentQuery st' \<noteq> Some (fst (parseTypeHints q')) \<longrightarrow>
        refreshEvents (statementNameOf directory) (fst (parseTypeHints q')) (workGroupOf opts)
          (newEvents w' (snd (snd (snd (ensurePreparedStatement client directory q' opts st' w')))))"
    by simp
  from ensure_rejected(1)[OF e] e
  have rejected: "isl (fst (ensurePreparedStatement client directory q' opts st' w')) \<longrightarrow>
        fst (snd (snd (ensurePreparedStatement client directory q' opts st' w'))) = st'"
    by simp
  from ensure_call(4)[OF e] e
  have accepted: "\<not> isl (fst (ensurePreparedStatement client directory q' opts st' w')) \<longrightarrow>
        currentPreparedStatement (fst (snd (snd (ensurePreparedStatement client directory q' opts st' w')))) =
          Some (projr (fst (ensurePreparedStatement client directory q' opts st' w'))) \<and>
        currentQuery (fst (snd (snd (ensurePreparedStatement client directory q' opts st' w')))) =
          Some (fst (parseTypeHints q'))"
    by simp
  note seq = ensureEach_sequence[OF assms, of directory opts client st w]
  note retry = ensureEach_retry[OF assms, of client directory opts st w]
  from seq have s1: "list_all (callShape (statementNameOf directory) t (workGroupOf opts))
           (ensureEach client directory opts qs st w)" by (rule conjunct1)
  from seq have s2: "length (filter successfulWrite (concat (map snd (ensureEach client directory opts qs st w)))) \<le> 1"
    by (rule conjunct2[THEN conjunct1])
  from seq have s3: "\<forall>i j. i < j \<and> j < length qs \<and> \<not> isl (fst (ensureEach client directory opts qs st w ! i)) \<longrightarrow>
        ensureEach client directory opts qs st w ! j =
          (fst (ensureEach client directory opts qs st w ! i), [])"
    by (rule conjunct2[THEN conjunct2])
  from s1 s2 s3 retry changed rejected accepted show ?thesis
    by (intro conjI)
qed

lemmas ensure_eval =
  ensurePreparedStatement_def refreshPreparedStatement_def send_def newEvents_def
  storeClient_def storeWorld_def initial_state_def workGroupOf_def sampleOptions_def
  statementNameOf_def isWhiteSpace_def code_def Let_def isWrite_def successfulWrite_def

lemma sample_queries:
  "parseTypeHints ''SELECT * FROM logs WHERE ip = ?:varchar'' =
     (''SELECT * FROM logs WHERE ip = ?'', [\<lparr>index = 0, type = ''varchar''\<rparr>])"
  "parseTypeHints ''SELECT * FROM logs WHERE ip = ?'' =
     (''SELECT * FROM logs WHERE ip = ?'', [\<lparr>index = 0, type = ''string''\<rparr>])"
  "parseTypeHints ''SELECT * FROM dns WHERE ip = ?'' =
     (''SELECT * FROM dns WHERE ip = ?'', [\<lparr>index = 0, type = ''string''\<rparr>])"
  by code_simp+

text \<open>
  Against C2 as stated, two executions.  In the first, two calls follow one another and
  the service rejects the first creation: the cache is written only after the write
  succeeded, so the second call with the same text issues the check and the creation
  again.  In the second, two calls with the same text overlap, as the tasks of one lookup
  of \<^verbatim>\<open>integration.js\<close> make them, while the service holds the statement with another text:
  each call finds the cache empty before the other has written it, and each sends an
  update, which succeeds.
\<close>

theorem ensurePreparedStatement_retries_after_failure:
  "map snd (ensureEach storeClient ''athena'' sampleOptions
      [''SELECT * FROM logs WHERE ip = ?'', ''SELECT * FROM logs WHERE ip = ?'']
      initial_state (storeWorld 1)) =
     [[Sent (GetPreparedStatement ''polarity_prepared_statement_athena'' ''primary'') (Failure notFound),
       Sent (CreatePreparedStatement ''polarity_prepared_statement_athena''
               ''SELECT * FROM logs WHERE ip = ?'' ''primary'') (Failure throttled)],
      [Sent (GetPreparedStatement ''polarity_prepared_statement_athena'' ''primary'') (Failure notFound),
       Sent (CreatePreparedStatement ''polarity_prepared_statement_athena''
               ''SELECT * FROM logs WHERE ip = ?'' ''primary'') Done]] \<and>
   length (filter isWrite (concat (map snd (ensureEach storeClient ''athena'' sampleOptions
      [''SELECT * FROM logs WHERE ip = ?'', ''SELECT * FROM logs WHERE ip = ?'']
      initial_state (storeWorld 1))))) = 2 \<and>
   trace (snd (snd (snd (overlapped storeClient ''athena'' [0, 1, 0, 1, 0, 1]
     [Called ''SELECT * FROM logs WHERE ip = ?'', Called ''SELECT * FROM logs WHERE ip = ?'']
     sampleOptions initial_state
     \<lparr>remote = (0, [(''polarity_prepared_statement_athena'', ''SELECT 1'')]), trace = []\<rparr>)))) =
     [Sent (GetPreparedStatement ''polarity_prepared_statement_athena'' ''primary'') Done,
      Sent (GetPreparedStatement ''polarity_prepared_statement_athena'' ''primary'') Done,
      Sent (UpdatePreparedStatement ''polarity_prepared_statement_athena''
              ''SELECT * FROM logs WHERE ip = ?'' ''primary'') Done,
      Sent (UpdatePreparedStatement ''polarity_prepared_statement_athena''
              ''SELECT * FROM logs WHERE ip = ?'' ''primary'') Done] \<and>
   fst (overlapped storeClient ''athena'' [0, 1, 0, 1, 0, 1]
     [Called ''SELECT * FROM logs WHERE ip = ?'', Called ''SELECT * FROM logs WHERE ip = ?'']
     sampleOptions initial_state
     \<lparr>remote = (0, [(''polarity_prepared_statement_athena'', ''SELECT 1'')]), trace = []\<rparr>) =
     [Returned (Inr ''polarity_prepared_statement_athena''),
      Returned (Inr ''polarity_prepared_statement_athena'')]"
  by (simp add: ensureStep_def ensure_eval sample_queries)

theorem ensurePreparedStatement_reuses_statement_witness:
  "fst (parseTypeHints ''SELECT * FROM logs WHERE ip = ?:varchar'') = ''SELECT * FROM logs WHERE ip = ?'' \<and>
   fst (parseTypeHints ''SELECT * FROM logs WHERE ip = ?'') = ''SELECT * FROM logs WHERE ip = ?'' \<and>
   ensureEach storeClient ''athena'' sampleOptions
      [''SELECT * FROM logs WHERE ip = ?:varchar'', ''SELECT * FROM logs WHERE ip = ?'']
      initial_state (storeWorld 0) ! 0 =
     (Inr ''polarity_prepared_statement_athena'',
      [Sent (GetPreparedStatement ''polarity_prepared_statement_athena'' ''primary'') (Failure notFound),
       Sent (CreatePreparedStatement ''polarity_prepared_statement_athena''
               ''SELECT * FROM logs WHERE ip = ?'' ''primary'') Done]) \<and>
   ensureEach storeClient ''athena'' sampleOptions
      [''SELECT * FROM logs WHERE ip = ?:varchar'', ''SELECT * FROM logs WHERE ip = ?'']
      initial_state (storeWorld 0) ! 1 = (Inr ''polarity_prepared_statement_athena'', []) \<and>
   isl (fst (ensureEach storeClient ''athena'' sampleOptions
      [''SELECT * FROM logs WHERE ip = ?:varchar'', ''SELECT * FROM logs WHERE ip = ?'']
      initial_state (storeWorld 1) ! 0)) \<and>
   refreshEvents ''polarity_prepared_statement_athena'' ''SELECT * FROM logs WHERE ip = ?'' ''primary''
     (snd (ensureEach storeClient ''athena'' sampleOptions
        [''SELECT * FROM logs WHERE ip = ?:varchar'', ''SELECT * FROM logs WHERE ip = ?'']
        initial_state (storeWorld 1) ! 1)) \<and>
   fst (snd (snd (ensurePreparedStatement storeClient ''athena''
      ''SELECT * FROM logs WHERE ip = ?:varchar'' sampleOptions initial_state (storeWorld 1)))) =
     initial_state \<and>
   refreshEvents ''polarity_prepared_statement_athena'' ''SELECT * FROM dns WHERE ip = ?'' ''primary''
     (newEvents \<lparr>remote = (0, [(''polarity_prepared_statement_athena'', ''SELECT * FROM logs WHERE ip = ?'')]),
                  trace = []\<rparr>
        (snd (snd (snd (ensurePreparedStatement storeClient ''athena''
           ''SELECT * FROM dns WHERE ip = ?'' sampleOptions
           (initial_state\<lparr>currentPreparedStatement := Some ''polarity_prepared_statement_athena'',
                           currentQuery := Some ''SELECT * FROM logs WHERE ip = ?''\<rparr>)
           \<lparr>remote = (0, [(''polarity_prepared_statement_athena'', ''SELECT * FROM logs WHERE ip = ?'')]),
             trace = []\<rparr>))))) \<and>
   currentQuery (fst (snd (snd (ensurePreparedStatement storeClient ''athena''
      ''SELECT * FROM dns WHERE ip = ?'' sampleOptions
      (initial_state\<lparr>currentPreparedStatement := Some ''polarity_prepared_statement_athena'',
                      currentQuery := Some ''SELECT * FROM logs WHERE ip = ?''\<rparr>)
      \<lparr>remote = (0, [(''polarity_prepared_statement_athena'', ''SELECT * FROM logs WHERE ip = ?'')]),
        trace = []\<rparr>)))) = Some ''SELECT * FROM dns WHERE ip = ?''"
proof -
  let ?q1 = "''SELECT * FROM logs WHERE ip = ?:varchar''"
  let ?qs = "[?q1, ''SELECT * FROM logs WHERE ip = ?'']"
  let ?t = "''SELECT * FROM logs WHERE ip = ?''"
  let ?q' = "''SELECT * FROM dns WHERE ip = ?''"
  let ?st' = "initial_state\<lparr>currentPreparedStatement := Some ''polarity_prepared_statement_athena'',
      currentQuery := Some ?t\<rparr>"
  let ?w' = "\<lparr>remote = (0 :: nat, [(''polarity_prepared_statement_athena'', ?t)]),
      trace = []\<rparr>"
  let ?runs = "ensureEach storeClient ''athena'' sampleOptions ?qs initial_state (storeWorld 0)"
  let ?retried = "ensureEach storeClient ''athena'' sampleOptions ?qs initial_state (storeWorld 1)"
  let ?rejected = "ensurePreparedStatement storeClient ''athena'' ?q1 sampleOptions initial_state
      (storeWorld 1)"
  have same: "\<forall>q \<in> set ?qs. fst (parseTypeHints q) = ?t"
    by (simp add: sample_queries)
  have names: "statementNameOf ''athena'' = ''polarity_prepared_statement_athena''"
    "workGroupOf sampleOptions = ''primary''"
    by (simp_all add: ensure_eval)
  have first: "?runs ! 0 =
     (Inr ''polarity_prepared_statement_athena'',
      [Sent (GetPreparedStatement ''polarity_prepared_statement_athena'' ''primary'') (Failure notFound),
       Sent (CreatePreparedStatement ''polarity_prepared_statement_athena'' ?t ''primary'') Done])"
    by (simp add: ensure_eval sample_queries)
  have changed: "currentPreparedStatement ?st' = None \<or>
      currentQuery ?st' \<noteq> Some (fst (parseTypeHints ?q'))"
    by (simp add: sample_queries)
  have thrown: "isl (fst (?retried ! 0))" "isl (fst ?rejected)"
    by (simp_all add: ensure_eval sample_queries)
  note t = ensurePreparedStatement_reuses_statement[OF same, of "''athena''" sampleOptions storeClient
      initial_state "storeWorld 0" ?st' ?q' ?w']
  note u = ensurePreparedStatement_reuses_statement[OF same, of "''athena''" sampleOptions storeClient
      initial_state "storeWorld 1" initial_state ?q1 "storeWorld 1"]
  from t have "\<forall>i j. i < j \<and> j < length ?qs \<and> \<not> isl (fst (?runs ! i)) \<longrightarrow>
      ?runs ! j = (fst (?runs ! i), [])"
    by (rule conjunct2[THEN conjunct2, THEN conjunct1])
  then have "(0 :: nat) < 1 \<and> 1 < length ?qs \<and> \<not> isl (fst (?runs ! 0)) \<longrightarrow>
      ?runs ! 1 = (fst (?runs ! 0), [])"
    by blast
  with first have second: "?runs ! 1 = (Inr ''polarity_prepared_statement_athena'', [])"
    by simp
  from u have "\<forall>i. Suc i < length ?qs \<and> isl (fst (?retried ! i)) \<longrightarrow>
      refreshEvents (statementNameOf ''athena'') ?t (workGroupOf sampleOptions) (snd (?retried ! Suc i))"
    by (rule conjunct2[THEN conjunct2, THEN conjunct2, THEN conjunct1])
  then have "Suc 0 < length ?qs \<and> isl (fst (?retried ! 0)) \<longrightarrow>
      refreshEvents (statementNameOf ''athena'') ?t (workGroupOf sampleOptions) (snd (?retried ! Suc 0))"
    by blast
  with thrown(1) have "refreshEvents (statementNameOf ''athena'') ?t (workGroupOf sampleOptions)
      (snd (?retried ! Suc 0))"
    by simp
  then have again: "refreshEvents ''polarity_prepared_statement_athena'' ?t ''primary''
      (snd (?retried ! 1))"
    by (simp only: names One_nat_def)
  from u have "isl (fst ?rejected) \<longrightarrow> fst (snd (snd ?rejected)) = initial_state"
    by (rule conjunct2[THEN conjunct2, THEN conjunct2, THEN conjunct2, THEN conjunct2, THEN conjunct1])
  with thrown(2) have kept: "fst (snd (snd ?rejected)) = initial_state"
    by (rule mp[rotated])
  from t have "currentPreparedStatement ?st' = None \<or>
      currentQuery ?st' \<noteq> Some (fst (parseTypeHints ?q')) \<longrightarrow>
      refreshEvents (statementNameOf ''athena'') (fst (parseTypeHints ?q'))
      (workGroupOf sampleOptions)
      (newEvents ?w' (snd (snd (snd (ensurePreparedStatement storeClient ''athena'' ?q'
         sampleOptions ?st' ?w')))))"
    by (rule conjunct2[THEN conjunct2, THEN conjunct2, THEN conjunct2, THEN conjunct1])
  from mp[OF this changed] have third: "refreshEvents ''polarity_prepared_statement_athena'' ?q' ''primary''
      (newEvents ?w' (snd (snd (snd (ensurePreparedStatement storeClient ''athena'' ?q'
         sampleOptions ?st' ?w')))))"
    by (simp only: names sample_queries fst_conv)
  have returned: "\<not> isl (fst (ensurePreparedStatement storeClient ''athena'' ?q' sampleOptions ?st' ?w'))"
    by (simp add: ensure_eval sample_queries)
  from t have "\<not> isl (fst (ensurePreparedStatement storeClient ''athena'' ?q' sampleOptions ?st' ?w')) \<longrightarrow>
      currentPreparedStatement
        (fst (snd (snd (ensurePreparedStatement storeClient ''athena'' ?q' sampleOptions ?st' ?w')))) =
        Some (projr (fst (ensurePreparedStatement storeClient ''athena'' ?q' sampleOptions ?st' ?w'))) \<and>
      currentQuery
        (fst (snd (snd (ensurePreparedStatement storeClient ''athena'' ?q' sampleOptions ?st' ?w')))) =
        Some (fst (parseTypeHints ?q'))"
    by (rule conjunct2[THEN conjunct2, THEN conjunct2, THEN conjunct2, THEN conjunct2,
          THEN conjunct2])
  from mp[OF this returned] have "currentQuery
      (fst (snd (snd (ensurePreparedStatement storeClient ''athena'' ?q' sampleOptions ?st' ?w')))) =
      Some (fst (parseTypeHints ?q'))"
    by (rule conjunct2)
  then have cached: "currentQuery
      (fst (snd (snd (ensurePreparedStatement storeClient ''athena'' ?q' sampleOptions ?st' ?w')))) =
      Some ?q'"
    by (simp only: sample_queries fst_conv)
  have texts: "fst (parseTypeHints ?q1) = ?t" "fst (parseTypeHints ?t) = ?t"
    by (simp_all only: sample_queries fst_conv)
  from texts first second thrown(1) again kept third cached show ?thesis
    by (intro conjI)
qed

section \<open>Properties of the lookup\<close>

lemma taskResult_entity: "taskResult lx rt st opts ent queryResult = Inr r \<Longrightarrow> entity r = ent"
  by (auto simp: taskResult_def split: if_splits sum.splits)

lemma loopHead_entity:
  "loopHead lx rt st opts ent qid queryStatus attempts statusResult = Settled (Inr r) \<Longrightarrow> entity r = ent"
  by (auto simp: loopHead_def split: if_splits option.splits dest: taskResult_entity)

lemma taskStep_entity:
  "taskStep lx rt client st opts ent stage w = (Settled (Inr r), w1) \<Longrightarrow> \<not> isSettled stage \<Longrightarrow>
   entity r = ent"
  by (cases stage)
     (auto simp: taskStep_def isSettled_def Let_def split: sum.splits prod.splits
        dest: taskResult_entity loopHead_entity)

text \<open>The invariant of the tasks holds at the start and after every event.\<close>

lemma initialPool_invariant: "poolInvariant entities (initialPool rt opts psName entities)"
  by (simp add: poolInvariant_def initialPool_def)

lemma advance_invariant:
  assumes "poolInvariant entities pool"
    and "advance lx rt client st opts entities k pool w = (pool1, w1)"
  shows "poolInvariant entities pool1"
proof (cases "k < started pool \<and> k < length (stages pool) \<and> \<not> isSettled (stages pool ! k)")
  case False
  with assms show ?thesis by (simp add: advance_def)
next
  case True
  obtain stage w2 where step: "taskStep lx rt client st opts (entities ! k) (stages pool ! k) w = (stage, w2)"
    by force
  from assms(1) have len: "length (stages pool) = length entities" by (simp add: poolInvariant_def)
  from True len have k: "k < length entities" by simp
  let ?stages = "(stages pool)[k := stage]"
  have stages1: "stages pool1 = ?stages"
    using assms(2) True step
    by (auto simp: advance_def Let_def split: task_stage.splits sum.splits if_splits)
  have rej1: "rejection pool1 =
      (case stage of
         Settled r \<Rightarrow> (case r of Inl e \<Rightarrow> (if rejection pool = None then Some e else rejection pool)
                       | Inr x \<Rightarrow> rejection pool)
       | _ \<Rightarrow> rejection pool)"
    using assms(2) True step
    by (auto simp: advance_def Let_def split: task_stage.splits sum.splits if_splits)
  have ent: "\<forall>j < length entities. \<forall>r. ?stages ! j = Settled (Inr r) \<longrightarrow> entity r = entities ! j"
  proof (intro allI impI)
    fix j r assume j: "j < length entities" and s: "?stages ! j = Settled (Inr r)"
    show "entity r = entities ! j"
    proof (cases "j = k")
      case eq: True
      with s len k have "stage = Settled (Inr r)" by simp
      with step True eq show ?thesis using taskStep_entity by blast
    next
      case False
      with s have "stages pool ! j = Settled (Inr r)" by simp
      with assms(1) j show ?thesis by (simp add: poolInvariant_def)
    qed
  qed
  have old_unsettled: "\<And>e. stages pool ! k \<noteq> Settled e"
    using True by (auto simp: isSettled_def)
  have rej: "(case rejection pool1 of
         None \<Rightarrow> \<forall>j < length entities. \<forall>e. ?stages ! j \<noteq> Settled (Inl e)
       | Some e \<Rightarrow> \<exists>j < length entities. ?stages ! j = Settled (Inl e))"
  proof (cases "rejection pool")
    case None
    with assms(1) have none: "\<forall>j < length entities. \<forall>e. stages pool ! j \<noteq> Settled (Inl e)"
      by (simp add: poolInvariant_def)
    show ?thesis
    proof (cases "\<exists>e. stage = Settled (Inl e)")
      case True
      then obtain e where e: "stage = Settled (Inl e)" by blast
      with rej1 None have "rejection pool1 = Some e" by simp
      moreover from e k len have "?stages ! k = Settled (Inl e)" by simp
      ultimately show ?thesis using k by auto
    next
      case False
      with rej1 None have r: "rejection pool1 = None"
        by (auto split: task_stage.splits sum.splits)
      have "?stages ! j \<noteq> Settled (Inl e)" if "j < length entities" for j e
        using that none False len k by (cases "j = k") auto
      with r show ?thesis by simp
    qed
  next
    case (Some e)
    with assms(1) obtain j where j: "j < length entities" "stages pool ! j = Settled (Inl e)"
      by (auto simp: poolInvariant_def)
    with old_unsettled have "j \<noteq> k" by auto
    with j have "?stages ! j = Settled (Inl e)" by simp
    moreover from rej1 Some have "rejection pool1 = Some e"
      by (auto split: task_stage.splits sum.splits)
    ultimately show ?thesis using j(1) by auto
  qed
  from len ent rej show ?thesis unfolding poolInvariant_def stages1 by simp
qed

lemma parallelLimit_invariant:
  assumes "poolInvariant entities pool"
    and "parallelLimit lx rt client st opts entities schedule pool w = (pool1, w1)"
  shows "poolInvariant entities pool1"
  using assms
proof (induction schedule arbitrary: pool w)
  case Nil
  then show ?case by simp
next
  case (Cons k schedule)
  obtain pool2 w2 where a: "advance lx rt client st opts entities k pool w = (pool2, w2)" by force
  from advance_invariant[OF Cons.prems(1) a] have "poolInvariant entities pool2" .
  moreover from Cons.prems(2) a have "parallelLimit lx rt client st opts entities schedule pool2 w2 = (pool1, w1)"
    by simp
  ultimately show ?case by (rule Cons.IH)
qed

lemma settledResults_all:
  assumes "\<forall>k < length tasks. \<exists>r. tasks ! k = Settled (Inr r)"
  shows "length (settledResults tasks) = length tasks \<and>
     (\<forall>k < length tasks. tasks ! k = Settled (Inr (settledResults tasks ! k)))"
  using assms
proof (induction tasks)
  case Nil
  then show ?case by (simp add: settledResults_def)
next
  case (Cons t tasks)
  from Cons.prems obtain r where r: "t = Settled (Inr r)" by force
  from Cons.prems have "\<forall>k < length tasks. \<exists>r. tasks ! k = Settled (Inr r)" by force
  from Cons.IH[OF this] have ih: "length (settledResults tasks) = length tasks"
    "\<forall>k < length tasks. tasks ! k = Settled (Inr (settledResults tasks ! k))" by simp_all
  have s: "settledResults (t # tasks) = r # settledResults tasks"
    using r by (simp add: settledResults_def)
  have "(t # tasks) ! k = Settled (Inr (settledResults (t # tasks) ! k))" if "k < length (t # tasks)" for k
    using that r s ih by (cases k) simp_all
  with s ih show ?case by simp
qed

lemma taskRun_settled [simp]: "taskRun lx rt client st opts ent n (Settled r) w = (Settled r, w)"
  by (induction n) (simp_all add: taskStep_def)

lemma taskRun_step:
  "0 < n \<Longrightarrow> taskStep lx rt client st opts ent stage w = (stage1, w1) \<Longrightarrow>
   taskRun lx rt client st opts ent n stage w = taskRun lx rt client st opts ent (n - 1) stage1 w1"
  by (cases n) simp_all

text \<open>A task that nothing interrupts: from the head of the loop on it does what the loop does.\<close>

lemma poll_alone:
  assumes "m = MAX_QUERY_STATUS_POLLING_ATTEMPTS" "iv = POLLING_WAIT_INTERVAL"
    and "3 * (m - attempts) + 2 \<le> n"
  shows "taskRun lx rt client st opts ent n
           (loopHead lx rt st opts ent qid queryStatus attempts statusResult) w =
    (case pollLoop client m iv qid queryStatus attempts statusResult w of
       (TimedOut sr, w2) \<Rightarrow>
         (Settled (taskResult lx rt st opts ent
            \<lparr>query_result.results = None, complete = False, queryExecutionId = qid,
             executionStats = Some (incompleteStats ''RUNNING'' sr)\<rparr>), w2)
     | (Raised e, w2) \<Rightarrow> (Settled (Inl e), w2)
     | (Exited status' sr, w2) \<Rightarrow>
         (case afterPolling client True qid opts status' sr w2 of
            (Inl e, w3) \<Rightarrow> (Settled (Inl e), w3)
          | (Inr queryResult, w3) \<Rightarrow> (Settled (taskResult lx rt st opts ent queryResult), w3)))"
  using assms
proof (induction client m iv qid queryStatus attempts statusResult w arbitrary: n rule: pollLoop.induct)
  case (1 client m iv qid queryStatus attempts statusResult w)
  note simps = pollLoop.simps[of client m iv qid queryStatus attempts statusResult w]
  show ?case
  proof (cases "queryStatus = ''RUNNING'' \<or> queryStatus = ''QUEUED''")
    case False
    then have p: "pollLoop client m iv qid queryStatus attempts statusResult w =
        (Exited queryStatus statusResult, w)"
      by (simp add: simps)
    show ?thesis
    proof (cases "queryStatus = ''FAILED'' \<or> queryStatus = ''CANCELLED''")
      case True
      with False p show ?thesis
        by (auto simp: loopHead_def afterPolling_def split: option.splits)
    next
      case other: False
      show ?thesis
      proof (cases statusResult)
        case None
        with False other p show ?thesis by (simp add: loopHead_def afterPolling_def)
      next
        case (Some sr)
        define n' where "n' = n - 2"
        have n': "n = Suc (Suc n')"
          using "1.prems"(3) unfolding n'_def by arith
        have head: "loopHead lx rt st opts ent qid queryStatus attempts statusResult =
            Fetching qid (Some (queryStats sr))"
          using False other Some by (simp add: loopHead_def)
        show ?thesis
          unfolding head p n'
          using False other Some
          by (auto simp: taskStep_def afterPolling_def fetchResults_def Let_def
              split: prod.splits sum.splits)
      qed
    qed
  next
    case pend: True
    show ?thesis
    proof (cases "attempts \<ge> m")
      case True
      with pend have p: "pollLoop client m iv qid queryStatus attempts statusResult w =
          (TimedOut statusResult, w)"
        by (simp add: simps)
      from True pend "1.prems"(1) have "loopHead lx rt st opts ent qid queryStatus attempts statusResult =
          Settled (taskResult lx rt st opts ent
            \<lparr>query_result.results = None, complete = False, queryExecutionId = qid,
             executionStats = Some (incompleteStats ''RUNNING'' statusResult)\<rparr>)"
        by (auto simp: loopHead_def)
      with p show ?thesis by simp
    next
      case False
      obtain answer w2 where s: "send (getQueryExecution client qid) (GetQueryExecution qid)
          QueryExecution (sleep iv w) = (answer, w2)" by force
      define n' where "n' = n - 3"
      have n': "n = Suc (Suc (Suc n'))" "3 * (m - Suc attempts) + 2 \<le> n'"
        using False "1.prems"(3) unfolding n'_def by arith+
      have head: "loopHead lx rt st opts ent qid queryStatus attempts statusResult =
          Sleeping qid attempts statusResult"
        using False pend "1.prems"(1) by (auto simp: loopHead_def)
      have three: "taskRun lx rt client st opts ent n (Sleeping qid attempts statusResult) w =
          taskRun lx rt client st opts ent n'
            (case answer of Inl e \<Rightarrow> Settled (Inl e)
             | Inr sr \<Rightarrow> loopHead lx rt st opts ent qid (State sr) (Suc attempts) (Some sr)) w2"
        using s "1.prems"(2) by (simp add: n'(1) taskStep_def split: sum.splits)
      show ?thesis
      proof (cases answer)
        case (Inl e)
        with s pend False have "pollLoop client m iv qid queryStatus attempts statusResult w =
            (Raised e, w2)"
          by (simp add: simps)
        with head three Inl show ?thesis by simp
      next
        case (Inr sr)
        with s pend False have p: "pollLoop client m iv qid queryStatus attempts statusResult w =
            pollLoop client m iv qid (State sr) (Suc attempts) (Some sr) w2"
          by (simp add: simps)
        from False have c2: "\<not> m \<le> attempts" by simp
        note ih = "1.IH"[OF pend c2 s[symmetric] Inr "1.prems"(1,2) n'(2)]
        from head three Inr ih p show ?thesis by simp
      qed
    qed
  qed
qed

text \<open>
  A task whose events come in a row, with nothing between them, is \<^verbatim>\<open>searchTask\<close>: the
  binding of the parameters, \<^verbatim>\<open>executeAthenaQuery\<close> and the formatting of its result.
\<close>

lemma task_alone:
  assumes "3 * MAX_QUERY_STATUS_POLLING_ATTEMPTS + 5 \<le> n"
  shows "taskRun lx rt client st opts ent n (Binding (createQuery rt ent opts psName)) w =
     (Settled (fst (searchTask lx rt client st opts psName ent w)),
      snd (searchTask lx rt client st opts psName ent w))"
proof (cases "createQuery rt ent opts psName")
  case (Inl e)
  from assms obtain n' where "n = Suc n'" by (cases n) simp_all
  with Inl show ?thesis by (simp add: taskStep_def searchTask_def)
next
  case (Inr queryParams)
  define n' where "n' = n - 3"
  have n': "n = Suc (Suc (Suc n'))" "3 * (MAX_QUERY_STATUS_POLLING_ATTEMPTS - 0) + 2 \<le> n'"
    using assms unfolding n'_def by arith+
  obtain answer w1 where s: "send (startQueryExecution client queryParams)
      (StartQueryExecution queryParams) QueryExecutionId w = (answer, w1)" by force
  show ?thesis
  proof (cases answer)
    case e: (Inl error)
    with Inr s show ?thesis
      by (simp add: n'(1) taskStep_def searchTask_def executeAthenaQuery_def executeAthenaQueryWith_def)
  next
    case (Inr qid)
    note loop = poll_alone[OF refl refl n'(2), of lx rt client st opts ent qid "''RUNNING''" None w1]
    have run: "taskRun lx rt client st opts ent n (Binding (createQuery rt ent opts psName)) w =
        taskRun lx rt client st opts ent n' (loopHead lx rt st opts ent qid ''RUNNING'' 0 None) w1"
      using \<open>createQuery rt ent opts psName = Inr queryParams\<close> Inr s
      by (simp add: n'(1) taskStep_def)
    obtain ex w2 where p: "pollLoop client MAX_QUERY_STATUS_POLLING_ATTEMPTS POLLING_WAIT_INTERVAL
        qid ''RUNNING'' 0 None w1 = (ex, w2)" by force
    have exec: "executeAthenaQuery client queryParams opts w =
        (case ex of
           TimedOut statusResult \<Rightarrow>
             (Inr \<lparr>query_result.results = None, complete = False, queryExecutionId = qid,
                   executionStats = Some (incompleteStats ''RUNNING'' statusResult)\<rparr>, w2)
         | Raised e \<Rightarrow> (Inl e, w2)
         | Exited queryStatus statusResult \<Rightarrow>
             afterPolling client True qid opts queryStatus statusResult w2)"
      using Inr s p by (cases ex) (simp_all add: executeAthenaQuery_def executeAthenaQueryWith_def)
    have task: "searchTask lx rt client st opts psName ent w =
        (case executeAthenaQuery client queryParams opts w of
           (Inl e, w3) \<Rightarrow> (Inl e, w3)
         | (Inr queryResult, w3) \<Rightarrow> (taskResult lx rt st opts ent queryResult, w3))"
      using \<open>createQuery rt ent opts psName = Inr queryParams\<close> by (simp add: searchTask_def)
    show ?thesis
    proof (cases ex)
      case (TimedOut statusResult)
      with run loop p exec task show ?thesis by simp
    next
      case (Raised e)
      with run loop p exec task show ?thesis by simp
    next
      case (Exited queryStatus statusResult)
      obtain res w3 where a: "afterPolling client True qid opts queryStatus statusResult w2 = (res, w3)"
        by force
      with Exited run loop p exec task show ?thesis by (cases res) simp_all
    qed
  qed
qed

text \<open>
  The lookup after a preparation that succeeded, for every schedule of its tasks.  The
  callback is called with an error exactly when a task has thrown; the error is the
  normalized error of a task that has thrown, and no result of any entity comes with it.
  When every task has returned, the callback is called with one result for each entity, in
  the order of the entities.  The callback has not been called exactly when no task has
  thrown and some task is still in flight.
\<close>

lemma doLookup_all_or_nothing:
  assumes prep: "prepareLookup client directory opts st0 w = (Inr psName, opts1, st1, w1)"
    and run: "parallelLimit lx rt client st1 opts1 entities schedule
                (initialPool rt opts1 psName entities) w1 = (pool, w2)"
    and out: "outcome = fst (doLookup lx rt client directory entities opts schedule st0 w)"
  shows "isCallbackError outcome = (\<exists>k < length entities. \<exists>e. stages pool ! k = Settled (Inl e))"
    and "isCallbackError outcome \<Longrightarrow>
           \<exists>k < length entities. \<exists>e. stages pool ! k = Settled (Inl e) \<and>
             outcome = CallbackError (errorToPojo e ''Error running Athena SQL query'')"
    and "\<forall>k < length entities. \<exists>r. stages pool ! k = Settled (Inr r) \<Longrightarrow>
           \<exists>lookupResults. outcome = CallbackResults lookupResults \<and>
             length lookupResults = length entities \<and> map entity lookupResults = entities \<and>
             (\<forall>k < length entities. stages pool ! k = Settled (Inr (lookupResults ! k)))"
    and "(outcome = NotCalled) =
           ((\<forall>k < length entities. \<forall>e. stages pool ! k \<noteq> Settled (Inl e)) \<and>
            (\<exists>k < length entities. \<not> isSettled (stages pool ! k)))"
proof -
  have inv: "poolInvariant entities pool"
    using initialPool_invariant run by (rule parallelLimit_invariant)
  then have len: "length (stages pool) = length entities" by (simp add: poolInvariant_def)
  have outcome: "outcome =
      (case rejection pool of
         Some lookupError \<Rightarrow> CallbackError (errorToPojo lookupError ''Error running Athena SQL query'')
       | None \<Rightarrow> if list_all isSettled (stages pool) then CallbackResults (settledResults (stages pool))
                 else NotCalled)"
    using prep run out by (simp add: doLookup_def runLookup_def outcomeOf_def)
  have unsettled: "(\<not> list_all isSettled (stages pool)) =
      (\<exists>k < length entities. \<not> isSettled (stages pool ! k))"
    using len by (auto simp: list_all_length)
  show err: "isCallbackError outcome = (\<exists>k < length entities. \<exists>e. stages pool ! k = Settled (Inl e))"
    using inv outcome by (cases "rejection pool") (auto simp: poolInvariant_def isCallbackError_def)
  show "\<exists>k < length entities. \<exists>e. stages pool ! k = Settled (Inl e) \<and>
      outcome = CallbackError (errorToPojo e ''Error running Athena SQL query'')"
    if "isCallbackError outcome"
    using that inv outcome
    by (cases "rejection pool") (auto simp: poolInvariant_def isCallbackError_def split: if_splits)
  show "\<exists>lookupResults. outcome = CallbackResults lookupResults \<and>
      length lookupResults = length entities \<and> map entity lookupResults = entities \<and>
      (\<forall>k < length entities. stages pool ! k = Settled (Inr (lookupResults ! k)))"
    if all: "\<forall>k < length entities. \<exists>r. stages pool ! k = Settled (Inr r)"
  proof -
    from all len have all': "\<forall>k < length (stages pool). \<exists>r. stages pool ! k = Settled (Inr r)"
      by simp
    note rs = settledResults_all[OF all']
    from all have none: "\<forall>k < length entities. \<forall>e. stages pool ! k \<noteq> Settled (Inl e)" by force
    with inv have rej: "rejection pool = None"
      by (cases "rejection pool") (auto simp: poolInvariant_def)
    from all' have "list_all isSettled (stages pool)"
      by (auto simp: list_all_length isSettled_def)
    with rej outcome have o: "outcome = CallbackResults (settledResults (stages pool))" by simp
    have "map entity (settledResults (stages pool)) = entities"
    proof (rule nth_equalityI)
      show "length (map entity (settledResults (stages pool))) = length entities"
        using rs len by simp
      fix k assume "k < length (map entity (settledResults (stages pool)))"
      with rs len have k: "k < length entities" by simp
      with rs len have "stages pool ! k = Settled (Inr (settledResults (stages pool) ! k))" by simp
      with inv k have "entity (settledResults (stages pool) ! k) = entities ! k"
        by (simp add: poolInvariant_def)
      with k rs len show "map entity (settledResults (stages pool)) ! k = entities ! k" by simp
    qed
    with o rs len show ?thesis by simp
  qed
  show "(outcome = NotCalled) =
      ((\<forall>k < length entities. \<forall>e. stages pool ! k \<noteq> Settled (Inl e)) \<and>
       (\<exists>k < length entities. \<not> isSettled (stages pool ! k)))"
    using inv outcome unsettled
    by (cases "rejection pool") (auto simp: poolInvariant_def)
qed

text \<open>Every event of a task brings it nearer to its end.\<close>

lemma loopHead_eventsLeft:
  "eventsLeft (loopHead lx rt st opts ent qid queryStatus attempts statusResult) \<le>
     3 * (MAX_QUERY_STATUS_POLLING_ATTEMPTS - attempts) + 5"
  by (auto simp: loopHead_def split: option.splits)

lemma taskStep_eventsLeft:
  assumes "\<not> isSettled stage"
  shows "eventsLeft (fst (taskStep lx rt client st opts ent stage w)) < eventsLeft stage"
proof (cases stage)
  case (Submitted answer)
  show ?thesis
  proof (cases answer)
    case (Inl e)
    with Submitted show ?thesis by (simp add: taskStep_def)
  next
    case (Inr qid)
    from loopHead_eventsLeft[of lx rt st opts ent qid "''RUNNING''" 0 None] Submitted Inr
    show ?thesis by (simp add: taskStep_def)
  qed
next
  case (Checked qid attempts answer)
  show ?thesis
  proof (cases answer)
    case (Inl e)
    with Checked show ?thesis by (simp add: taskStep_def)
  next
    case (Inr sr)
    show ?thesis
    proof (cases "Suc attempts < MAX_QUERY_STATUS_POLLING_ATTEMPTS")
      case True
      from loopHead_eventsLeft[of lx rt st opts ent qid "State sr" "Suc attempts" "Some sr"] True
        Checked Inr
      show ?thesis by (simp add: taskStep_def)
    next
      case False
      then have "eventsLeft (loopHead lx rt st opts ent qid (State sr) (Suc attempts) (Some sr)) \<le> 2"
        by (auto simp: loopHead_def)
      with Checked Inr show ?thesis by (simp add: taskStep_def)
    qed
  qed
qed (use assms in \<open>auto simp: taskStep_def isSettled_def Let_def split: sum.splits prod.splits\<close>)

lemma filter_update_unsettled:
  assumes "k < length xs" "\<not> P (xs ! k)"
  shows "length (filter P (xs[k := x])) = length (filter P xs) + (if P x then 1 else 0)"
  using assms
proof (induction xs arbitrary: k)
  case Nil
  then show ?case by simp
next
  case (Cons y ys)
  then show ?case by (cases k) auto
qed

lemma initialPool_started: "startedInvariant (initialPool rt opts psName entities)"
  by (auto simp: startedInvariant_def initialPool_def isSettled_def filter_empty_conv
      intro!: arg_cong[where f=length])

lemma advance_idle:
  "\<not> (k < started pool \<and> k < length (stages pool) \<and> \<not> isSettled (stages pool ! k)) \<Longrightarrow>
   advance lx rt client st opts entities k pool w = (pool, w)"
  unfolding advance_def by (simp only: if_False)

lemma advance_fields:
  assumes "k < started pool" "k < length (stages pool)" "\<not> isSettled (stages pool ! k)"
    and "taskStep lx rt client st opts (entities ! k) (stages pool ! k) w = (stage, w2)"
    and "advance lx rt client st opts entities k pool w = (pool1, w1)"
  shows "stages pool1 = (stages pool)[k := stage]"
    and "w1 = w2"
    and "rejection pool1 =
      (case stage of
         Settled r \<Rightarrow> (case r of Inl e \<Rightarrow> (if rejection pool = None then Some e else rejection pool)
                       | Inr x \<Rightarrow> rejection pool)
       | _ \<Rightarrow> rejection pool)"
    and "started pool1 =
      (case stage of
         Settled r \<Rightarrow> (case r of Inl e \<Rightarrow> started pool
                       | Inr x \<Rightarrow> if rejection pool = None \<and> started pool < length (stages pool)
                                  then Suc (started pool) else started pool)
       | _ \<Rightarrow> started pool)"
  using assms
  by (auto simp: advance_def Let_def split: task_stage.splits sum.splits if_splits)

lemma advance_started:
  assumes inv: "startedInvariant pool"
    and adv: "advance lx rt client st opts entities k pool w = (pool1, w1)"
  shows "startedInvariant pool1"
proof (cases "k < started pool \<and> k < length (stages pool) \<and> \<not> isSettled (stages pool ! k)")
  case False
  from advance_idle[OF False, of lx rt client st opts entities w] adv inv show ?thesis by simp
next
  case True
  obtain stage w2 where step: "taskStep lx rt client st opts (entities ! k) (stages pool ! k) w = (stage, w2)"
    by force
  from True have k: "k < started pool" "k < length (stages pool)" "\<not> isSettled (stages pool ! k)"
    by simp_all
  note f = advance_fields[OF k step adv]
  from inv have le: "started pool \<le> length (stages pool)"
    and rest: "\<forall>j. started pool \<le> j \<and> j < length (stages pool) \<longrightarrow> \<not> isSettled (stages pool ! j)"
    and cnt: "rejection pool = None \<longrightarrow>
         started pool = min (length (stages pool)) (10 + length (filter isSettled (stages pool)))"
    by (simp_all add: startedInvariant_def)
  have count: "length (filter isSettled ((stages pool)[k := stage])) =
      length (filter isSettled (stages pool)) + (if isSettled stage then 1 else 0)"
    using k(2,3) by (rule filter_update_unsettled)
  have le1: "started pool1 \<le> length (stages pool1)"
    using f(1,4) le by (auto split: task_stage.splits sum.splits)
  have mono: "started pool \<le> started pool1"
    using f(4) by (auto split: task_stage.splits sum.splits)
  have rest1: "\<not> isSettled (stages pool1 ! j)" if "started pool1 \<le> j" "j < length (stages pool1)" for j
  proof -
    from that mono k(1) have "j \<noteq> k" "started pool \<le> j" by simp_all
    with that(2) rest f(1) show ?thesis by simp
  qed
  have cnt1: "started pool1 = min (length (stages pool1)) (10 + length (filter isSettled (stages pool1)))"
    if none: "rejection pool1 = None"
  proof -
    from none f(3) have old: "rejection pool = None"
      by (auto split: task_stage.splits sum.splits if_splits)
    with cnt have c: "started pool =
        min (length (stages pool)) (10 + length (filter isSettled (stages pool)))" by simp
    show ?thesis
    proof (cases "isSettled stage")
      case False
      with f(4) have "started pool1 = started pool"
        by (auto simp: isSettled_def split: task_stage.splits)
      with False c count f(1) show ?thesis by simp
    next
      case True
      then obtain r where r: "stage = Settled r" by (auto simp: isSettled_def split: task_stage.splits)
      with none f(3) old obtain x where x: "r = Inr x" by (cases r) auto
      from r x f(4) old have s1: "started pool1 =
          (if started pool < length (stages pool) then Suc (started pool) else started pool)"
        by simp
      from True count f(1) have c1: "length (filter isSettled (stages pool1)) =
          Suc (length (filter isSettled (stages pool)))" by simp
      from s1 c c1 le f(1) show ?thesis by (auto simp: min_def split: if_splits)
    qed
  qed
  from le1 rest1 cnt1 show ?thesis by (simp add: startedInvariant_def)
qed

lemma parallelLimit_started:
  assumes "startedInvariant pool"
    and "parallelLimit lx rt client st opts entities schedule pool w = (pool1, w1)"
  shows "startedInvariant pool1"
  using assms
proof (induction schedule arbitrary: pool w)
  case Nil
  then show ?case by simp
next
  case (Cons k schedule)
  obtain pool2 w2 where a: "advance lx rt client st opts entities k pool w = (pool2, w2)" by force
  from advance_started[OF Cons.prems(1) a] have "startedInvariant pool2" .
  moreover from Cons.prems(2) a have "parallelLimit lx rt client st opts entities schedule pool2 w2 = (pool1, w1)"
    by simp
  ultimately show ?case by (rule Cons.IH)
qed

lemma parallelLimit_append:
  "parallelLimit lx rt client st opts entities (schedule @ later) pool w =
     (case parallelLimit lx rt client st opts entities schedule pool w of
        (pool1, w1) \<Rightarrow> parallelLimit lx rt client st opts entities later pool1 w1)"
  by (induction schedule arbitrary: pool w) (auto split: prod.splits)

text \<open>While the callback has not been called, a task that was started can advance.\<close>

lemma no_deadlock:
  assumes inv: "startedInvariant pool" and "outcomeOf pool = NotCalled"
  shows "\<exists>k < started pool. k < length (stages pool) \<and> \<not> isSettled (stages pool ! k)"
proof (rule ccontr)
  assume "\<not> ?thesis"
  then have settled: "\<forall>k < started pool. k < length (stages pool) \<longrightarrow> isSettled (stages pool ! k)"
    by blast
  from assms(2) have none: "rejection pool = None" and some: "\<not> list_all isSettled (stages pool)"
    by (auto simp: outcomeOf_def split: option.splits if_splits)
  from inv have le: "started pool \<le> length (stages pool)"
    and rest: "\<forall>j. started pool \<le> j \<and> j < length (stages pool) \<longrightarrow> \<not> isSettled (stages pool ! j)"
    and cnt: "started pool = min (length (stages pool)) (10 + length (filter isSettled (stages pool)))"
    using none by (simp_all add: startedInvariant_def)
  have split: "stages pool = take (started pool) (stages pool) @ drop (started pool) (stages pool)"
    by simp
  have a: "filter isSettled (take (started pool) (stages pool)) = take (started pool) (stages pool)"
    using settled le by (auto simp: filter_id_conv in_set_conv_nth)
  have b: "filter isSettled (drop (started pool) (stages pool)) = []"
    using rest by (auto simp: filter_empty_conv in_set_conv_nth)
  have "length (filter isSettled (stages pool)) =
      length (filter isSettled (take (started pool) (stages pool))) +
      length (filter isSettled (drop (started pool) (stages pool)))"
    by (subst split) (simp only: filter_append length_append)
  with a b le have "length (filter isSettled (stages pool)) = started pool" by simp
  with cnt have "started pool = length (stages pool)" by (simp add: min_def split: if_splits)
  with settled have "list_all isSettled (stages pool)" by (simp add: list_all_length)
  with some show False by simp
qed

lemma sum_list_update_less:
  assumes "k < length xs" "(f :: 'a \<Rightarrow> nat) x < f (xs ! k)"
  shows "sum_list (map f (xs[k := x])) < sum_list (map f xs)"
  using assms
proof (induction xs arbitrary: k)
  case Nil
  then show ?case by simp
next
  case (Cons y ys)
  then show ?case by (cases k) auto
qed

text \<open>Every execution can go on until the callback is called.\<close>

lemma callback_called:
  assumes "startedInvariant pool"
  shows "\<exists>later. outcomeOf (fst (parallelLimit lx rt client st opts entities later pool w)) \<noteq> NotCalled"
  using assms
proof (induction "sum_list (map eventsLeft (stages pool))" arbitrary: pool w rule: less_induct)
  case less
  show ?case
  proof (cases "outcomeOf pool = NotCalled")
    case False
    then show ?thesis by (intro exI[of _ "[]"]) simp
  next
    case True
    from no_deadlock[OF less.prems True] obtain k where
      k: "k < started pool" "k < length (stages pool)" "\<not> isSettled (stages pool ! k)" by blast
    obtain stage w2 where step: "taskStep lx rt client st opts (entities ! k) (stages pool ! k) w = (stage, w2)"
      by force
    obtain pool1 w1 where adv: "advance lx rt client st opts entities k pool w = (pool1, w1)"
      by force
    note f = advance_fields[OF k step adv]
    from taskStep_eventsLeft[OF k(3), of lx rt client st opts "entities ! k" w] step
    have "eventsLeft stage < eventsLeft (stages pool ! k)" by simp
    with k(2) f(1) have smaller: "sum_list (map eventsLeft (stages pool1)) <
        sum_list (map eventsLeft (stages pool))"
      by (simp add: sum_list_update_less)
    from advance_started[OF less.prems adv] have inv1: "startedInvariant pool1" .
    from less.hyps[OF smaller inv1, of w1] obtain later where
      "outcomeOf (fst (parallelLimit lx rt client st opts entities later pool1 w1)) \<noteq> NotCalled"
      by blast
    with adv show ?thesis by (intro exI[of _ "k # later"]) simp
  qed
qed

lemma doLookup_callback_called:
  assumes "prepareLookup client directory opts st0 w = (Inr psName, opts1, st1, w1)"
  shows "\<exists>later. fst (doLookup lx rt client directory entities opts (schedule @ later) st0 w) \<noteq>
           NotCalled"
proof -
  obtain pool w2 where run: "parallelLimit lx rt client st1 opts1 entities schedule
      (initialPool rt opts1 psName entities) w1 = (pool, w2)" by force
  from initialPool_started run have "startedInvariant pool" by (rule parallelLimit_started)
  from callback_called[OF this, of lx rt client st1 opts1 entities w2] obtain later where
    "outcomeOf (fst (parallelLimit lx rt client st1 opts1 entities later pool w2)) \<noteq> NotCalled"
    by blast
  with assms run show ?thesis
    by (intro exI[of _ later])
       (auto simp: doLookup_def runLookup_def parallelLimit_append split: prod.splits)
qed

lemma port_query:
  "parseTypeHints ''SELECT * FROM flows WHERE port = ?:int'' =
     (''SELECT * FROM flows WHERE port = ?'', [\<lparr>index = 0, type = ''int''\<rparr>])"
  "includesStr ''SELECT * FROM flows WHERE port = ?:int'' ''?''"
  "toLowerCase ''int'' = ''int''"
  "parseInt ''443'' = Some 443" "parseInt ''80'' = Some 80" "parseInt ''https'' = None"
  "stringOfInt sampleNumbers 443 = ''443''" "stringOfInt sampleNumbers 80 = ''80''"
  "string_of_nat (Suc 0) = ''1''"
  by code_simp+

lemmas lookup_eval =
  prepareLookup_def optionsHaveChanged_def initializeAthenaClient_def
  setCachedDisplayAttributes_def cachedAttributes_def processAttributeOption_def
  processColumn_def trim_def
  ensurePreparedStatement_def refreshPreparedStatement_def send_def sleep_def
  initial_state_def workGroupOf_def sampleOptions_def portOptions_def flowClient_def
  statementNameOf_def isWhiteSpace_def code_def Let_def
  sampleClient_def statusOf_def emptyWorld_def
  doLookup_def runLookup_def outcomeOf_def initialPool_def advance_def taskStep_def loopHead_def
  taskResult_def isSettled_def settledResults_def
  createQuery_def createParameterValue_def queryParamsOf_def
  materialize_def rowObject_def setProperty_def isArrayIndex_def isDigit_def
  headerName_def queryStats_def orNull_def interpolate_def
  MAX_QUERY_STATUS_POLLING_ATTEMPTS_def POLLING_WAIT_INTERVAL_def
  formatQueryResult_def getSummaryTags_def getDetails_def summaryTag_def get_def
  parseAttribute_def parseAttributeSwitch_def countTag_def dedupe_def

text \<open>
  Two entities, of which the second cannot be bound to the placeholder, and a service that
  reports every execution as failed.  When the second task advances first, the callback
  gets its error, and the first task, which was started, runs on: its exchanges are on the
  trace.  When the first task has thrown before the second advances, the callback gets the
  error of the first.
\<close>

lemma doLookup_first_error:
  "fst (doLookup sampleLuxon sampleNumbers (sampleClient (statusOf ''FAILED'' (Some ''boom'')) None)
          ''athena'' [''443'', ''https''] portOptions [1, 0, 0, 0, 0, 0] initial_state emptyWorld) =
     CallbackError (errorToPojo
       (Error (''Parameter 1: Cannot convert '' @ [dquote] @ ''https'' @ [dquote] @ '' to integer type''))
       ''Error running Athena SQL query'') \<and>
   trace (snd (snd (doLookup sampleLuxon sampleNumbers
          (sampleClient (statusOf ''FAILED'' (Some ''boom'')) None)
          ''athena'' [''443'', ''https''] portOptions [1, 0, 0, 0, 0, 0] initial_state emptyWorld))) =
     [Sent (GetPreparedStatement ''polarity_prepared_statement_athena'' ''primary'') Done,
      Sent (UpdatePreparedStatement ''polarity_prepared_statement_athena''
              ''SELECT * FROM flows WHERE port = ?'' ''primary'') Done,
      Sent (StartQueryExecution
              \<lparr>QueryString = ''EXECUTE polarity_prepared_statement_athena USING 443'',
               WorkGroup = ''primary'', OutputLocation = None\<rparr>) (QueryExecutionId ''q-1''),
      Slept 3000,
      Sent (GetQueryExecution ''q-1'') (QueryExecution (statusOf ''FAILED'' (Some ''boom'')))] \<and>
   fst (doLookup sampleLuxon sampleNumbers (sampleClient (statusOf ''FAILED'' (Some ''boom'')) None)
          ''athena'' [''443'', ''https''] portOptions [0, 0, 0, 0, 0, 0, 1] initial_state emptyWorld) =
     CallbackError (errorToPojo (Error ''Query failed: boom'') ''Error running Athena SQL query'')"
  by (simp add: lookup_eval port_query Error_def)

text \<open>Two entities whose tasks advance in turns and both return.\<close>

lemma doLookup_results:
  "fst (doLookup sampleLuxon sampleNumbers flowClient ''athena'' [''443'', ''80''] portOptions
          [0, 1, 1, 0, 1, 0, 0, 1, 1, 1, 1, 1, 0, 0, 0, 0] initial_state emptyWorld) =
     CallbackResults
       [\<lparr>entity = ''443'',
         data = Some \<lparr>summary = [''a: x''],
           details = \<lparr>showAsJson = True, details.results = Rows [[(''a'', Some ''x'')]],
             complete = True, queryExecutionId = Some ''q-1'',
             executionStats = Some \<lparr>status = None, elapsedSeconds = None, dataScannedBytes = None\<rparr>\<rparr>\<rparr>\<rparr>,
        \<lparr>entity = ''80'',
         data = Some \<lparr>summary = [''a: x''],
           details = \<lparr>showAsJson = True, details.results = Rows [[(''a'', Some ''x'')]],
             complete = True, queryExecutionId = Some ''q-1'',
             executionStats = Some \<lparr>status = None, elapsedSeconds = None, dataScannedBytes = None\<rparr>\<rparr>\<rparr>\<rparr>]"
  by (simp add: lookup_eval port_query)

text \<open>
  Claim C7 at a lookup of the entity \<^verbatim>\<open>443\<close> with a query that has a placeholder, when the
  service has no prepared statement yet and rejects the creation with a throttling error.
  The claim says that the callback gets the results when no task fails, and an error when
  one does.  Here no task fails, for none is started: the trace ends with the rejected
  creation, whatever the schedule.  But \<^verbatim>\<open>await ensurePreparedStatement(options.query, options)\<close>
  stands before the \<^verbatim>\<open>try\<close> block of \<^verbatim>\<open>doLookup\<close>, so the rejection leaves \<^verbatim>\<open>doLookup\<close> as a
  rejected promise and the callback is never called, neither with results nor with an
  error.
\<close>

theorem doLookup_unhandled_rejection:
  "fst (doLookup sampleLuxon sampleNumbers storeClient ''athena'' [''443''] portOptions schedule
          initial_state (storeWorld 1)) = Unhandled throttled \<and>
   trace (snd (snd (doLookup sampleLuxon sampleNumbers storeClient ''athena'' [''443''] portOptions
          schedule initial_state (storeWorld 1)))) =
     [Sent (GetPreparedStatement ''polarity_prepared_statement_athena'' ''primary'') (Failure notFound),
      Sent (CreatePreparedStatement ''polarity_prepared_statement_athena''
              ''SELECT * FROM flows WHERE port = ?'' ''primary'') (Failure throttled)]"
  by (simp add: doLookup_def lookup_eval port_query storeClient_def storeWorld_def)

end
